theory Spec2Isabelle
  imports Complex_Main
begin

section \<open>Helpers for building the optimisation problems of the rigid-block equilibrium\<close>

text \<open>
  The module \<^verbatim>\<open>compas_cra/equilibrium/pyomo_helper.py\<close> selects formulas
  (initialisations, bounds, objectives, constraints) by name, assembles the equilibrium
  and friction constraint blocks, and writes a solved model back onto the assembly.

  Python floats are idealised as \<^typ>\<open>real\<close>: the properties below are about which
  entries are read, written and combined, not about rounding. A pyomo expression is
  represented by its value at the variable assignment the model holds.
  What the module prints is left out.
\<close>

subsection \<open>Errors and lookups\<close>

text \<open>
  Indexing a pyomo component or a dictionary with a missing index raises
  \<^verbatim>\<open>KeyError\<close>; indexing a tuple or a numpy array out of range raises
  \<^verbatim>\<open>IndexError\<close>; a failed \<^verbatim>\<open>assert\<close> raises \<^verbatim>\<open>AssertionError\<close>. A raise
  is the left injection of the result.
\<close>

datatype py_error = KeyError | IndexError | AssertionError

definition bind_result :: "py_error + 'a \<Rightarrow> ('a \<Rightarrow> py_error + 'b) \<Rightarrow> py_error + 'b" where
  "bind_result r k = (case r of Inl e \<Rightarrow> Inl e | Inr v \<Rightarrow> k v)"

definition component_get :: "('k \<rightharpoonup> 'a) \<Rightarrow> 'k \<Rightarrow> py_error + 'a" where
  "component_get c i = (case c i of None \<Rightarrow> Inl KeyError | Some v \<Rightarrow> Inr v)"

text \<open>
  An integer index into an array axis of length \<open>n\<close>: a negative index counts from the
  end, an index outside \<open>[-n, n)\<close> raises.
\<close>

definition np_index :: "nat \<Rightarrow> int \<Rightarrow> py_error + nat" where
  "np_index n i =
     (if - int n \<le> i \<and> i < int n then Inr (nat (if i < 0 then i + int n else i))
      else Inl IndexError)"

text \<open>A row of a numpy array, the array given by its rows.\<close>

definition array_get :: "'a list \<Rightarrow> int \<Rightarrow> py_error + 'a" where
  "array_get c i = bind_result (np_index (length c) i) (\<lambda>j. Inr (c ! j))"

text \<open>A list comprehension whose element expression can raise.\<close>

fun map_result :: "('a \<Rightarrow> py_error + 'b) \<Rightarrow> 'a list \<Rightarrow> py_error + 'b list" where
  "map_result g [] = Inr []"
| "map_result g (x # xs) =
     bind_result (g x) (\<lambda>y. bind_result (map_result g xs) (\<lambda>ys. Inr (y # ys)))"

definition tuple_get :: "'a list \<Rightarrow> nat \<Rightarrow> py_error + 'a" where
  "tuple_get t k = (if k < length t then Inr (t ! k) else Inl IndexError)"

subsection \<open>The optimisation model\<close>

text \<open>
  The attributes of the pyomo model that the module touches. \<open>model_f\<close>, \<open>model_d\<close> and
  \<open>model_alpha\<close> are indexed components (a lookup outside the index set raises
  \<^verbatim>\<open>KeyError\<close>); \<open>model_alpha\<close> is listed with its index set in iteration order.
  \<open>model_displs\<close> and \<open>model_forces\<close> are numpy arrays given by their rows, one
  vector each (a negative row index counts from the end). \<open>model_q\<close> is
  \<open>None\<close> when the model has no component named \<^verbatim>\<open>q\<close>, and otherwise the
  component \<^verbatim>\<open>q\<close> as its (index, value) pairs, one per index.
\<close>

record model =
  model_f_id :: "int list"
  model_f :: "int \<rightharpoonup> real"
  model_d :: "int \<rightharpoonup> real"
  model_alpha :: "(int \<times> real) list"
  model_displs :: "real list list"
  model_forces :: "real list list"
  model_array_f :: "int list"
  model_q :: "(int \<times> real) list option"

subsection \<open>Variable initialisations\<close>

definition f_tilde_init :: "model \<Rightarrow> int \<Rightarrow> real" where
  "f_tilde_init m i = (if i mod 4 = 1 then 0 else 1)"

definition initialisations :: "string \<Rightarrow> (model \<Rightarrow> int \<Rightarrow> real) option" where
  "initialisations variable = (if variable = ''f_tilde'' then Some f_tilde_init else None)"

subsection \<open>Variable bounds\<close>

datatype domain = NonNegativeReals | Reals

text \<open>A bounds function returns a domain, or the triple (lower, variable, upper).\<close>

datatype bnd = Domain domain | Bound_tuple real real real

definition f_tilde_bnds :: "model \<Rightarrow> int \<Rightarrow> py_error + bnd" where
  "f_tilde_bnds m i =
     (if i mod 4 = 0 \<or> i mod 4 = 1 then Inr (Domain NonNegativeReals) else Inr (Domain Reals))"

definition f_bnds :: "model \<Rightarrow> int \<Rightarrow> py_error + bnd" where
  "f_bnds m i = (if i mod 3 = 0 then Inr (Domain NonNegativeReals) else Inr (Domain Reals))"

definition d_bnds :: "real \<Rightarrow> model \<Rightarrow> int \<Rightarrow> py_error + bnd" where
  "d_bnds d_bnd m i =
     bind_result (component_get (model_d m) i) (\<lambda>di. Inr (Bound_tuple (- d_bnd) di d_bnd))"

definition bounds :: "string \<Rightarrow> real \<Rightarrow> (model \<Rightarrow> int \<Rightarrow> py_error + bnd) option" where
  "bounds variable d_bnd =
     (if variable = ''f'' then Some f_bnds
      else if variable = ''f_tilde'' then Some f_tilde_bnds
      else if variable = ''d'' then Some (d_bnds d_bnd)
      else None)"

subsection \<open>Objective functions\<close>

text \<open>
  \<^verbatim>\<open>pyo.dot_product(model.alpha, model.alpha)\<close> sums \<open>alpha[i] * alpha[i]\<close> over the
  index set of \<open>alpha\<close>.
\<close>

definition dot_product :: "(int \<times> real) list \<Rightarrow> (int \<times> real) list \<Rightarrow> py_error + real" where
  "dot_product a b =
     fold (\<lambda>i acc. bind_result acc (\<lambda>s.
             bind_result (component_get (map_of a) i) (\<lambda>x.
             bind_result (component_get (map_of b) i) (\<lambda>y. Inr (s + x * y)))))
          (map fst a) (Inr 0)"

text \<open>The loop of \<open>_obj_weights\<close> over \<open>model.f_id\<close>, with the running sum.\<close>

fun obj_weights_loop :: "real list \<Rightarrow> model \<Rightarrow> int list \<Rightarrow> real \<Rightarrow> py_error + real" where
  "obj_weights_loop weights m [] f_sum = Inr f_sum"
| "obj_weights_loop weights m (i # is) f_sum =
     (if i mod 4 = 1 then
        bind_result (component_get (model_f m) i) (\<lambda>fi.
        bind_result (tuple_get weights 2) (\<lambda>w.
        obj_weights_loop weights m is (f_sum + fi * fi * w)))
      else if i mod 4 = 0 then
        bind_result (component_get (model_f m) i) (\<lambda>fi.
        bind_result (tuple_get weights 1) (\<lambda>w.
        obj_weights_loop weights m is (f_sum + fi * fi * w)))
      else obj_weights_loop weights m is f_sum)"

definition obj_weights :: "real list \<Rightarrow> model \<Rightarrow> py_error + real" where
  "obj_weights weights m = obj_weights_loop weights m (model_f_id m) 0"

definition obj_rbe :: "real list \<Rightarrow> model \<Rightarrow> py_error + real" where
  "obj_rbe weights m = obj_weights weights m"

text \<open>The loop of \<open>obj_cra\<close> over \<open>model.f_id\<close>, with the running sum.\<close>

fun obj_cra_loop :: "model \<Rightarrow> int list \<Rightarrow> real \<Rightarrow> py_error + real" where
  "obj_cra_loop m [] f_sum = Inr f_sum"
| "obj_cra_loop m (i # is) f_sum =
     (if i mod 3 = 0 then
        bind_result (component_get (model_f m) i) (\<lambda>fi.
        obj_cra_loop m is (f_sum + fi * fi))
      else obj_cra_loop m is f_sum)"

definition obj_cra :: "model \<Rightarrow> py_error + real" where
  "obj_cra m =
     bind_result (dot_product (model_alpha m) (model_alpha m)) (\<lambda>alpha_sum.
     bind_result (obj_cra_loop m (model_f_id m) 0) (\<lambda>f_sum.
     Inr (f_sum + alpha_sum)))"

definition obj_cra_penalty :: "real list \<Rightarrow> model \<Rightarrow> py_error + real" where
  "obj_cra_penalty weights m =
     bind_result (dot_product (model_alpha m) (model_alpha m)) (\<lambda>dp.
     bind_result (tuple_get weights 0) (\<lambda>w.
     bind_result (obj_weights weights m) (\<lambda>f_sum.
     Inr (dp * w + f_sum))))"

definition objectives :: "string \<Rightarrow> real list \<Rightarrow> (model \<Rightarrow> py_error + real) option" where
  "objectives solver weights =
     (if solver = ''cra'' then Some obj_cra
      else if solver = ''cra_penalty'' then Some (obj_cra_penalty weights)
      else if solver = ''rbe'' then Some (obj_rbe weights)
      else None)"

subsection \<open>Constraint functions\<close>

text \<open>
  A constraint function returns an equality \<open>(body, value)\<close> or a range
  \<open>(lower, body, upper)\<close>, where \<open>None\<close> is an absent bound.
\<close>

datatype con = Eq_con real real | Range_con "real option" real "real option"

definition contact_con :: "real \<Rightarrow> model \<Rightarrow> int \<Rightarrow> py_error + con" where
  "contact_con eps m i =
     bind_result (component_get (model_d m) (i * 3)) (\<lambda>dn.
     bind_result (component_get (model_f m) (i * 3)) (\<lambda>fn.
     Inr (Eq_con ((dn + eps) * fn) 0)))"

definition penalty_contact_con :: "real \<Rightarrow> model \<Rightarrow> int \<Rightarrow> py_error + con" where
  "penalty_contact_con eps m i =
     bind_result (component_get (model_d m) (i * 3)) (\<lambda>dn.
     bind_result (component_get (model_f m) (i * 4)) (\<lambda>fn.
     Inr (Eq_con ((dn + eps) * fn) 0)))"

definition fn_np_con :: "model \<Rightarrow> int \<Rightarrow> py_error + con" where
  "fn_np_con m i =
     bind_result (component_get (model_f m) (i * 4)) (\<lambda>a.
     bind_result (component_get (model_f m) (i * 4 + 1)) (\<lambda>b.
     Inr (Eq_con (a * b) 0)))"

definition no_penetration_con :: "real \<Rightarrow> model \<Rightarrow> int \<Rightarrow> py_error + con" where
  "no_penetration_con eps m t =
     bind_result (component_get (model_d m) (t * 3)) (\<lambda>dn.
     Inr (Range_con (Some 0) (dn + eps) None))"

text \<open>
  Two rows of one array have one length and add componentwise; a component is read by
  position, a negative position counting from the end.
\<close>

definition vec_add :: "real list \<Rightarrow> real list \<Rightarrow> real list" where
  "vec_add u v = map2 (+) u v"

definition vec_get :: "real list \<Rightarrow> int \<Rightarrow> py_error + real" where
  "vec_get v k =
     (let n = int (length v); j = (if k < 0 then n + k else k)
      in if 0 \<le> j \<and> j < n then Inr (v ! nat j) else Inl IndexError)"

definition tangential :: "real list list \<Rightarrow> int \<Rightarrow> int \<Rightarrow> py_error + real list" where
  "tangential arr a b =
     bind_result (array_get arr a) (\<lambda>u.
     bind_result (array_get arr b) (\<lambda>v. Inr (vec_add u v)))"

definition ft_dt_con :: "model \<Rightarrow> int \<Rightarrow> int \<Rightarrow> py_error + con" where
  "ft_dt_con m i xyz =
     bind_result (tangential (model_displs m) (i * 3 + 1) (i * 3 + 2)) (\<lambda>d_t.
     bind_result (tangential (model_forces m) (i * 3 + 1) (i * 3 + 2)) (\<lambda>f_t.
     bind_result (vec_get f_t xyz) (\<lambda>ft.
     bind_result (vec_get d_t xyz) (\<lambda>dt.
     bind_result (component_get (map_of (model_alpha m)) i) (\<lambda>al.
     Inr (Eq_con ft (- dt * al)))))))"

definition penalty_ft_dt_con :: "model \<Rightarrow> int \<Rightarrow> int \<Rightarrow> py_error + con" where
  "penalty_ft_dt_con m i xyz =
     bind_result (tangential (model_displs m) (i * 3 + 1) (i * 3 + 2)) (\<lambda>d_t.
     bind_result (tangential (model_forces m) (i * 4 + 2) (i * 4 + 3)) (\<lambda>f_t.
     bind_result (vec_get f_t xyz) (\<lambda>ft.
     bind_result (vec_get d_t xyz) (\<lambda>dt.
     bind_result (component_get (map_of (model_alpha m)) i) (\<lambda>al.
     Inr (Eq_con ft (- dt * al)))))))"

text \<open>The selected function takes an index, or an index and a coordinate.\<close>

datatype con_fun =
    Con_index "model \<Rightarrow> int \<Rightarrow> py_error + con"
  | Con_index_xyz "model \<Rightarrow> int \<Rightarrow> int \<Rightarrow> py_error + con"

definition constraints :: "string \<Rightarrow> real \<Rightarrow> con_fun option" where
  "constraints name eps =
     (if name = ''contact'' then Some (Con_index (contact_con eps))
      else if name = ''penalty_contact'' then Some (Con_index (penalty_contact_con eps))
      else if name = ''fn_np'' then Some (Con_index fn_np_con)
      else if name = ''no_penetration'' then Some (Con_index (no_penetration_con eps))
      else if name = ''ft_dt'' then Some (Con_index_xyz ft_dt_con)
      else if name = ''penalty_ft_dt'' then Some (Con_index_xyz penalty_ft_dt_con)
      else None)"

subsection \<open>The assembly\<close>

text \<open>
  The graph of the assembly: its nodes in iteration order, each with its key and
  attributes, and its edges in iteration order, each with its list of interfaces. The
  graph stores its nodes in a dictionary, so the keys are distinct. \<open>block_volume\<close> is
  what \<^verbatim>\<open>assembly.node_block(node).volume()\<close> returns. Every interface object belongs to
  one edge. Attributes the module never touches are the extension fields of the records.
\<close>

record contact_force =
  c_np :: real
  c_nn :: real
  c_u :: real
  c_v :: real

record interface =
  points :: "real list list"
  forces :: "contact_force list"

record node_attr =
  is_support :: bool
  block_volume :: real
  displacement :: "real list option"

record ('k, 'n, 'i) assembly =
  graph_nodes :: "('k \<times> 'n node_attr_scheme) list"
  graph_edges :: "(('k \<times> 'k) \<times> 'i interface_scheme list) list"

subsection \<open>Setting up the equilibrium matrix\<close>

text \<open>\<^verbatim>\<open>{key: index for index, key in enumerate(assembly.graph.nodes())}\<close>\<close>

definition key_index :: "'k list \<Rightarrow> ('k \<rightharpoonup> nat)" where
  "key_index keys = fold (\<lambda>(index, key) m. m(key \<mapsto> index)) (enumerate 0 keys) Map.empty"

text \<open>\<^verbatim>\<open>assembly.graph.nodes_where({'is_support': True})\<close>\<close>

definition nodes_where_is_support :: "('k \<times> 'n node_attr_scheme) list \<Rightarrow> 'k list" where
  "nodes_where_is_support ns = map fst (filter (\<lambda>(key, attr). is_support attr) ns)"

text \<open>\<^verbatim>\<open>[index * 6 + i for index in free for i in range(6)]\<close>\<close>

definition row_numbers :: "nat list \<Rightarrow> nat list" where
  "row_numbers free = concat (map (\<lambda>index. map (\<lambda>i. index * 6 + i) [0..<6]) free)"

text \<open>Selecting rows of a matrix by a list of row numbers; a number past the end raises.\<close>

definition select_rows :: "'r list \<Rightarrow> nat list \<Rightarrow> py_error + 'r list" where
  "select_rows a rs = map_result (\<lambda>r. if r < length a then Inr (a ! r) else Inl IndexError) rs"

text \<open>
  \<open>make_aeq\<close> is the external helper that builds the raw equilibrium matrix (here by its
  rows) and the vertex count. \<open>set_order\<close> is the order in which Python iterates the set
  \<^verbatim>\<open>set(range(num_nodes)) - set(fixed)\<close>: it is given the elements of the set and
  returns them in the order \<^verbatim>\<open>list\<close> produces.
\<close>

definition equilibrium_setup ::
  "(nat list \<Rightarrow> nat list) \<Rightarrow> (('k, 'n, 'i, 'a) assembly_scheme \<Rightarrow> real list list \<times> nat) \<Rightarrow>
   ('k, 'n, 'i, 'a) assembly_scheme \<Rightarrow> py_error + (real list list \<times> nat \<times> nat list)" where
  "equilibrium_setup set_order make_aeq assembly =
     (let num_nodes = length (graph_nodes assembly);
          ki = key_index (map fst (graph_nodes assembly));
          fixed_keys = nodes_where_is_support (graph_nodes assembly)
      in bind_result (map_result (component_get ki) fixed_keys) (\<lambda>fixed.
           let free = set_order (filter (\<lambda>i. i \<notin> set fixed) [0..<num_nodes]);
               (aeq, vcount) = make_aeq assembly
           in bind_result (select_rows aeq (row_numbers free)) (\<lambda>aeq'.
                Inr (aeq', vcount, free))))"

subsection \<open>Equilibrium and friction constraints\<close>

text \<open>
  A matrix constraint \<open>lb \<le> A x \<le> ub\<close>, row by row; \<open>None\<close> is an absent bound.
\<close>

record matrix_constraint =
  mc_matrix :: "real list list"
  mc_lb :: "real option list"
  mc_ub :: "real option list"
  mc_x :: "int list"

text \<open>The loop that writes the self weight of every block into \<open>p\<close>.\<close>

fun p_loop ::
  "('k \<rightharpoonup> nat) \<Rightarrow> real \<Rightarrow> ('k \<times> 'n node_attr_scheme) list \<Rightarrow> real list list \<Rightarrow>
   py_error + real list list" where
  "p_loop ki density [] p = Inr p"
| "p_loop ki density ((node, attr) # ns) p =
     bind_result (component_get ki node) (\<lambda>index.
       if index < length p
       then p_loop ki density ns (p[index := (p ! index)[2 := - block_volume attr * density]])
       else Inl IndexError)"

text \<open>
  \<^verbatim>\<open>p[free, :]\<close>. With no node the array built from the empty list has one axis only,
  and indexing two axes raises.
\<close>

definition take_rows :: "real list list \<Rightarrow> int list \<Rightarrow> py_error + real list list" where
  "take_rows p free =
     (if p = [] then Inl IndexError
      else map_result (\<lambda>i. bind_result (np_index (length p) i) (\<lambda>j. Inr (p ! j))) free)"

text \<open>
  The constructor of pyomo's \<^verbatim>\<open>MatrixConstraint\<close>, the sparse matrix given by its rows:
  it asserts that there is one lower bound and one upper bound for every row of the
  matrix.
\<close>

definition MatrixConstraint ::
  "real list list \<Rightarrow> real option list \<Rightarrow> real option list \<Rightarrow> int list \<Rightarrow>
   py_error + matrix_constraint" where
  "MatrixConstraint A lb ub x =
     (if length A \<noteq> length lb then Inl AssertionError
      else if length ub \<noteq> length lb then Inl AssertionError
      else Inr \<lparr>mc_matrix = A, mc_lb = lb, mc_ub = ub, mc_x = x\<rparr>)"

text \<open>
  \<open>make_afr\<close> is the external helper that builds the friction matrix from the vertex
  count, the number of cone facets and the friction coefficient.
\<close>

definition static_equilibrium_constraints ::
  "(nat \<Rightarrow> nat \<Rightarrow> real \<Rightarrow> real list list) \<Rightarrow> model \<Rightarrow> ('k, 'n, 'i, 'a) assembly_scheme \<Rightarrow>
   real list list \<Rightarrow> nat \<Rightarrow> int list \<Rightarrow> real \<Rightarrow> real \<Rightarrow>
   py_error + (matrix_constraint \<times> matrix_constraint)" where
  "static_equilibrium_constraints make_afr m assembly aeq vcount free density mu =
     (let num_nodes = length (graph_nodes assembly);
          ki = key_index (map fst (graph_nodes assembly));
          p0 = map (\<lambda>i. [0, 0, 0, 0, 0, 0]) [0..<num_nodes]
      in bind_result (p_loop ki density (graph_nodes assembly) p0) (\<lambda>p.
         bind_result (take_rows p free) (\<lambda>rows.
           let pf = concat rows;
               afr = make_afr vcount 8 mu
           in bind_result
                (MatrixConstraint aeq (map (\<lambda>x. Some (- x)) pf) (map (\<lambda>x. Some (- x)) pf)
                   (model_array_f m)) (\<lambda>equilibrium_constraints.
              bind_result
                (MatrixConstraint afr (map (\<lambda>i. None) [0..<length afr])
                   (map (\<lambda>i. Some 0) [0..<length afr]) (model_array_f m)) (\<lambda>friction_constraint.
              Inr (equilibrium_constraints, friction_constraint))))))"

subsection \<open>Writing the results back\<close>

text \<open>The dictionary of the forces at contact point \<open>i\<close> of an interface.\<close>

definition point_forces :: "model \<Rightarrow> nat \<Rightarrow> nat \<Rightarrow> nat \<Rightarrow> py_error + contact_force" where
  "point_forces m shift offset i =
     bind_result (component_get (model_f m) (int (offset + shift * i + 0))) (\<lambda>np.
     bind_result (if shift = 4 then component_get (model_f m) (int (offset + shift * i + 1))
                  else Inr 0) (\<lambda>nn.
     bind_result (component_get (model_f m)
                    (int (offset + shift * i + 1 + (if shift = 4 then 1 else 0)))) (\<lambda>u.
     bind_result (component_get (model_f m)
                    (int (offset + shift * i + 2 + (if shift = 4 then 1 else 0)))) (\<lambda>v.
     Inr \<lparr>c_np = np, c_nn = nn, c_u = u, c_v = v\<rparr>))))"

text \<open>
  The loops return the state they reached and the exception that stopped them, if any:
  what was written before a raise stays written.
\<close>

fun points_loop ::
  "model \<Rightarrow> nat \<Rightarrow> nat \<Rightarrow> nat list \<Rightarrow> contact_force list \<Rightarrow>
   contact_force list \<times> py_error option" where
  "points_loop m shift offset [] acc = (acc, None)"
| "points_loop m shift offset (i # is) acc =
     (case point_forces m shift offset i of
        Inl e \<Rightarrow> (acc, Some e)
      | Inr entry \<Rightarrow> points_loop m shift offset is (acc @ [entry]))"

fun interfaces_loop ::
  "model \<Rightarrow> nat \<Rightarrow> nat \<Rightarrow> 'i interface_scheme list \<Rightarrow>
   'i interface_scheme list \<times> nat \<times> py_error option" where
  "interfaces_loop m shift offset [] = ([], offset, None)"
| "interfaces_loop m shift offset (x # xs) =
     (let n = length (points x);
          (fs, err) = points_loop m shift offset [0..<n] [];
          x' = x\<lparr>forces := fs\<rparr>
      in case err of
           Some e \<Rightarrow> (x' # xs, offset, Some e)
         | None \<Rightarrow>
             (let (xs', offset', err') = interfaces_loop m shift (offset + shift * n) xs
              in (x' # xs', offset', err')))"

fun edges_loop ::
  "model \<Rightarrow> nat \<Rightarrow> nat \<Rightarrow> (('k \<times> 'k) \<times> 'i interface_scheme list) list \<Rightarrow>
   (('k \<times> 'k) \<times> 'i interface_scheme list) list \<times> nat \<times> py_error option" where
  "edges_loop m shift offset [] = ([], offset, None)"
| "edges_loop m shift offset ((edge, interfaces) # es) =
     (let (interfaces', offset', err) = interfaces_loop m shift offset interfaces
      in case err of
           Some e \<Rightarrow> ((edge, interfaces') # es, offset', Some e)
         | None \<Rightarrow>
             (let (es', offset'', err') = edges_loop m shift offset' es
              in ((edge, interfaces') # es', offset'', err')))"

text \<open>\<^verbatim>\<open>q[a:b]\<close> for \<open>0 \<le> a \<le> b\<close>: the slice stops at the end of the list.\<close>

definition py_slice :: "'a list \<Rightarrow> nat \<Rightarrow> nat \<Rightarrow> 'a list" where
  "py_slice xs a b = take (b - a) (drop a xs)"

fun displacement_loop ::
  "real list \<Rightarrow> nat \<Rightarrow> ('k \<times> 'n node_attr_scheme) list \<Rightarrow> ('k \<times> 'n node_attr_scheme) list" where
  "displacement_loop q offset [] = []"
| "displacement_loop q offset ((node, attr) # ns) =
     (if is_support attr then (node, attr) # displacement_loop q offset ns
      else (node, attr\<lparr>displacement := Some (py_slice q offset (offset + 6))\<rparr>)
             # displacement_loop q (offset + 6) ns)"

text \<open>\<^verbatim>\<open>[model.q[i].value for i in range(len(model.q))]\<close>\<close>

definition q_values :: "(int \<times> real) list \<Rightarrow> py_error + real list" where
  "q_values qc = map_result (component_get (map_of qc)) (map int [0..<length qc])"

definition pyomo_result_assembly ::
  "model \<Rightarrow> ('k, 'n, 'i, 'a) assembly_scheme \<Rightarrow> bool \<Rightarrow> bool \<Rightarrow>
   ('k, 'n, 'i, 'a) assembly_scheme \<times> py_error option" where
  "pyomo_result_assembly m assembly penalty verbose =
     (let shift = (if \<not> penalty then 3 else 4);
          (edges', offset, err) = edges_loop m shift 0 (graph_edges assembly);
          assembly' = assembly\<lparr>graph_edges := edges'\<rparr>
      in case err of
           Some e \<Rightarrow> (assembly', Some e)
         | None \<Rightarrow>
             (case model_q m of
                None \<Rightarrow> (assembly', None)
              | Some qc \<Rightarrow>
                  (case q_values qc of
                     Inl e \<Rightarrow> (assembly', Some e)
                   | Inr q \<Rightarrow>
                       (assembly'\<lparr>graph_nodes := displacement_loop q 0 (graph_nodes assembly')\<rparr>,
                        None))))"

subsection \<open>The weighted objective as the documentation states it\<close>

text \<open>
  The weights are \<open>(W_alpha, W_compression, W_tension)\<close>. The weighted sum is
  \<open>W_compression\<close> times the squares of the forces at the indices of \<open>f_id\<close> with residue
  0 modulo 4, plus \<open>W_tension\<close> times the squares of those with residue 1.
\<close>

definition spec_weighted_sum :: "real list \<Rightarrow> model \<Rightarrow> real" where
  "spec_weighted_sum weights m =
     (\<Sum>i\<leftarrow>filter (\<lambda>i. i mod 4 = 0) (model_f_id m).
        the (model_f m i) * the (model_f m i) * weights ! 1)
     + (\<Sum>i\<leftarrow>filter (\<lambda>i. i mod 4 = 1) (model_f_id m).
          the (model_f m i) * the (model_f m i) * weights ! 2)"

definition spec_alpha_dot :: "model \<Rightarrow> real" where
  "spec_alpha_dot m =
     (\<Sum>i\<leftarrow>map fst (model_alpha m).
        the (map_of (model_alpha m) i) * the (map_of (model_alpha m) i))"

subsection \<open>The self weight as the specification states it\<close>

text \<open>
  The vector \<open>p\<close> in the words of the specification: for each index of the free list, in
  order, six entries, the third being minus the volume of the block times the density and
  the others zero.
\<close>

definition self_weight_vector ::
  "('k, 'n, 'i, 'a) assembly_scheme \<Rightarrow> real \<Rightarrow> int list \<Rightarrow> real list" where
  "self_weight_vector a density free =
     concat (map (\<lambda>index. [0, 0, - (block_volume (snd (graph_nodes a ! nat index)) * density),
                            0, 0, 0]) free)"

subsection \<open>The written forces as the specification states them\<close>

text \<open>
  In the words of the specification: the shift is 4 with the penalty formulation and 3
  without; the forces of contact point \<open>i\<close> of an interface that starts at \<open>offset\<close> are
  read at \<open>offset + shift * i + k\<close>, where without penalty \<open>c_nn\<close> is the constant 0
  and \<open>c_u\<close>, \<open>c_v\<close> are at \<open>k = 1, 2\<close>, and with penalty \<open>c_nn\<close> is at \<open>k = 1\<close> and
  \<open>c_u\<close>, \<open>c_v\<close> at \<open>k = 2, 3\<close>; the offset of an interface is the shift times the number
  of contact points of all the interfaces visited before it.
\<close>

definition spec_shift :: "bool \<Rightarrow> nat" where
  "spec_shift penalty = (if penalty then 4 else 3)"

definition spec_point_forces :: "model \<Rightarrow> bool \<Rightarrow> nat \<Rightarrow> nat \<Rightarrow> contact_force" where
  "spec_point_forces m penalty offset i =
     (let rd = (\<lambda>k. the (model_f m (int (offset + spec_shift penalty * i + k))))
      in if penalty then \<lparr>c_np = rd 0, c_nn = rd 1, c_u = rd 2, c_v = rd 3\<rparr>
         else \<lparr>c_np = rd 0, c_nn = 0, c_u = rd 1, c_v = rd 2\<rparr>)"

definition all_interfaces :: "('k, 'n, 'i, 'a) assembly_scheme \<Rightarrow> 'i interface_scheme list" where
  "all_interfaces a = concat (map snd (graph_edges a))"

definition points_before :: "'i interface_scheme list \<Rightarrow> nat \<Rightarrow> nat" where
  "points_before xs j = sum_list (map (\<lambda>x. length (points x)) (take j xs))"

definition spec_interfaces ::
  "model \<Rightarrow> bool \<Rightarrow> nat \<Rightarrow> 'i interface_scheme list \<Rightarrow> 'i interface_scheme list" where
  "spec_interfaces m penalty offset xs =
     map (\<lambda>j. (xs ! j)\<lparr>forces :=
                 map (spec_point_forces m penalty
                        (offset + spec_shift penalty * points_before xs j))
                     [0..<length (points (xs ! j))]\<rparr>)
         [0..<length xs]"

subsection \<open>The written displacements as the specification states them\<close>

text \<open>
  In the words of the specification: the \<open>k\<close>-th node that is not a support, in the
  order of the nodes, receives the slice \<open>q[6k : 6k + 6]\<close>, and a support keeps its
  attributes. \<open>free_before ns j\<close> counts the nodes before position \<open>j\<close> that are not
  supports.
\<close>

definition free_before :: "('k \<times> 'n node_attr_scheme) list \<Rightarrow> nat \<Rightarrow> nat" where
  "free_before ns j = length (filter (\<lambda>(key, attr). \<not> is_support attr) (take j ns))"

definition spec_displaced_nodes ::
  "real list \<Rightarrow> ('k \<times> 'n node_attr_scheme) list \<Rightarrow> ('k \<times> 'n node_attr_scheme) list" where
  "spec_displaced_nodes q ns =
     map (\<lambda>j. case ns ! j of (key, attr) \<Rightarrow>
            if is_support attr then (key, attr)
            else (key, attr\<lparr>displacement :=
                    Some (py_slice q (6 * free_before ns j) (6 * free_before ns j + 6))\<rparr>))
         [0..<length ns]"

subsection \<open>The assembly without the written results\<close>

text \<open>
  The assembly with the two places the write-back may touch blanked: the forces of every
  interface and the displacement of every node that is not a support.
\<close>

definition erase_results :: "('k, 'n, 'i, 'a) assembly_scheme \<Rightarrow> ('k, 'n, 'i, 'a) assembly_scheme" where
  "erase_results a =
     a\<lparr>graph_nodes :=
         map (\<lambda>(key, attr). (key, if is_support attr then attr else attr\<lparr>displacement := None\<rparr>))
           (graph_nodes a),
       graph_edges :=
         map (\<lambda>(edge, ifs). (edge, map (\<lambda>x. x\<lparr>forces := []\<rparr>) ifs)) (graph_edges a)\<rparr>"

section \<open>Example inputs\<close>

text \<open>A model with two force variables, of values 2 and 3, and one \<open>alpha\<close> of value 1.\<close>

definition weights_model :: model where
  "weights_model = \<lparr>model_f_id = [0, 1], model_f = [0 \<mapsto> 2, 1 \<mapsto> 3], model_d = Map.empty,
     model_alpha = [(0, 1)], model_displs = [], model_forces = [],
     model_array_f = [0, 1], model_q = None\<rparr>"

text \<open>An assembly of three blocks, the middle one a support, with two edges.\<close>

definition example_assembly :: "(nat, unit, unit) assembly" where
  "example_assembly =
     \<lparr>graph_nodes =
        [(10, \<lparr>is_support = False, block_volume = 2, displacement = None\<rparr>),
         (20, \<lparr>is_support = True, block_volume = 1, displacement = None\<rparr>),
         (30, \<lparr>is_support = False, block_volume = 3, displacement = None\<rparr>)],
      graph_edges =
        [((10, 20), [\<lparr>points = [[0, 0, 0], [1, 0, 0]], forces = []\<rparr>]),
         ((20, 30), [\<lparr>points = [[0, 0, 1]], forces = []\<rparr>])]\<rparr>"

definition example_make_aeq :: "(nat, unit, unit) assembly \<Rightarrow> real list list \<times> nat" where
  "example_make_aeq a = (map (\<lambda>r. [real r]) [0..<6 * length (graph_nodes a)], 3)"

text \<open>A friction matrix with one row per vertex and facet, a solved model, and the blocks they give.\<close>

definition example_make_afr :: "nat \<Rightarrow> nat \<Rightarrow> real \<Rightarrow> real list list" where
  "example_make_afr vcount fcon_number mu = replicate (vcount * fcon_number) [mu]"

definition example_model :: model where
  "example_model =
     \<lparr>model_f_id = [0, 1, 2, 3, 4, 5, 6, 7, 8],
      model_f = (\<lambda>k. if 0 \<le> k \<and> k < 12 then Some (10 + real_of_int k) else None),
      model_d = Map.empty, model_alpha = [(0, 1)], model_displs = [],
      model_forces = [], model_array_f = [0, 1, 2, 3, 4, 5, 6, 7, 8],
      model_q = Some [(0, 20), (1, 21), (2, 22), (3, 23), (4, 24), (5, 25), (6, 26), (7, 27),
                      (8, 28), (9, 29), (10, 30), (11, 31)]\<rparr>"

text \<open>The rows that \<open>equilibrium_setup\<close> keeps of the example matrix.\<close>

definition example_aeq :: "real list list" where
  "example_aeq = [[12], [13], [14], [15], [16], [17], [0], [1], [2], [3], [4], [5]]"

definition example_equilibrium_block :: matrix_constraint where
  "example_equilibrium_block =
     \<lparr>mc_matrix = example_aeq,
      mc_lb = map Some [0, 0, 6, 0, 0, 0, 0, 0, 4, 0, 0, 0],
      mc_ub = map Some [0, 0, 6, 0, 0, 0, 0, 0, 4, 0, 0, 0],
      mc_x = [0, 1, 2, 3, 4, 5, 6, 7, 8]\<rparr>"

definition example_friction_block :: matrix_constraint where
  "example_friction_block =
     \<lparr>mc_matrix = replicate 24 [1 / 2], mc_lb = replicate 24 None,
      mc_ub = replicate 24 (Some 0), mc_x = [0, 1, 2, 3, 4, 5, 6, 7, 8]\<rparr>"

text \<open>The assembly with no block.\<close>

definition empty_assembly :: "(nat, unit, unit) assembly" where
  "empty_assembly = \<lparr>graph_nodes = [], graph_edges = []\<rparr>"

text \<open>The nodes of the example after the displacements of the example model are written.\<close>

definition example_displaced_nodes :: "(nat \<times> node_attr) list" where
  "example_displaced_nodes =
     [(10, \<lparr>is_support = False, block_volume = 2,
            displacement = Some [20, 21, 22, 23, 24, 25]\<rparr>),
      (20, \<lparr>is_support = True, block_volume = 1, displacement = None\<rparr>),
      (30, \<lparr>is_support = False, block_volume = 3,
            displacement = Some [26, 27, 28, 29, 30, 31]\<rparr>)]"

section \<open>Properties\<close>

subsection \<open>The formula selectors\<close>

lemma bind_result_simps:
  "bind_result (Inl e) k = Inl e"
  "bind_result (Inr v) k = k v"
  by (simp_all add: bind_result_def)

text \<open>
  C6. The bounds selector returns per-index domain functions determined by residues:
  for \<open>f_tilde\<close> the function maps every index whose residue modulo 4 is 0 or 1 to the
  non-negative reals and every other index to the reals; for \<open>f\<close> the function maps
  every index divisible by 3 to the non-negative reals and every other index to the reals.
\<close>

theorem bounds_residue_domains:
  "bounds ''f_tilde'' d_bnd = Some f_tilde_bnds
   \<and> (\<forall>m i. f_tilde_bnds m i =
         Inr (Domain (if i mod 4 = 0 \<or> i mod 4 = 1 then NonNegativeReals else Reals)))
   \<and> bounds ''f'' d_bnd = Some f_bnds
   \<and> (\<forall>m i. f_bnds m i = Inr (Domain (if i mod 3 = 0 then NonNegativeReals else Reals)))"
  by (simp add: bounds_def f_tilde_bnds_def f_bnds_def)

text \<open>
  C8. For a selector string outside the documented options each formula selector returns
  \<open>None\<close> and does not raise: \<open>initialisations\<close> for a variable other than \<open>f_tilde\<close>,
  \<open>bounds\<close> for a variable outside \<open>f\<close>, \<open>f_tilde\<close>, \<open>d\<close>, \<open>objectives\<close> for a solver
  outside \<open>cra\<close>, \<open>cra_penalty\<close>, \<open>rbe\<close>, and \<open>constraints\<close> for a name outside the six
  constraint names.
\<close>

theorem unknown_selector_returns_None:
  "(variable \<noteq> ''f_tilde'' \<longrightarrow> initialisations variable = None)
   \<and> (bvariable \<notin> {''f'', ''f_tilde'', ''d''} \<longrightarrow> bounds bvariable d_bnd = None)
   \<and> (solver \<notin> {''cra'', ''cra_penalty'', ''rbe''} \<longrightarrow> objectives solver weights = None)
   \<and> (name \<notin> {''contact'', ''penalty_contact'', ''fn_np'', ''no_penetration'', ''ft_dt'',
                 ''penalty_ft_dt''} \<longrightarrow> constraints name eps = None)"
  by (simp add: initialisations_def bounds_def objectives_def constraints_def)

theorem unknown_selector_returns_None_witness:
  "initialisations ''f'' = None \<and> bounds ''q'' (1/1000) = None
   \<and> objectives ''crap'' [1, 1, 1000000] = None \<and> constraints ''Contact'' (1/10000) = None"
  using unknown_selector_returns_None [of "''f''" "''q''" "1/1000" "''crap''" "[1, 1, 1000000]" "''Contact''" "1/10000"]
  by simp

lemma dot_product_fold:
  "set is \<subseteq> fst ` set a \<Longrightarrow>
   fold (\<lambda>i acc. bind_result acc (\<lambda>s.
             bind_result (component_get (map_of a) i) (\<lambda>x.
             bind_result (component_get (map_of a) i) (\<lambda>y. Inr (s + x * y)))))
          is (Inr s0)
   = Inr (s0 + (\<Sum>i\<leftarrow>is. the (map_of a i) * the (map_of a i)))"
proof (induction "is" arbitrary: s0)
  case Nil
  then show ?case by simp
next
  case (Cons i "is")
  from Cons.prems have "i \<in> fst ` set a" by simp
  then obtain v where v: "map_of a i = Some v"
    by (metis domD dom_map_of_conv_image_fst)
  from Cons.prems have sub: "set is \<subseteq> fst ` set a" by simp
  show ?case
    using Cons.IH [OF sub, of "s0 + v * v"] v
    by (simp add: bind_result_simps component_get_def add.assoc)
qed

lemma dot_product_self:
  "dot_product a a = Inr (\<Sum>i\<leftarrow>map fst a. the (map_of a i) * the (map_of a i))"
  unfolding dot_product_def
  using dot_product_fold [of "map fst a" a 0] by simp

lemma obj_cra_loop_ok:
  "\<forall>i\<in>set is. i mod 3 = 0 \<longrightarrow> i \<in> dom (model_f m) \<Longrightarrow>
   obj_cra_loop m is s0
   = Inr (s0 + (\<Sum>i\<leftarrow>filter (\<lambda>i. i mod 3 = 0) is. the (model_f m i) * the (model_f m i)))"
proof (induction "is" arbitrary: s0)
  case Nil
  then show ?case by simp
next
  case (Cons i "is")
  then show ?case
    by (auto simp: bind_result_simps component_get_def add.assoc)
qed

lemma obj_cra_loop_fail:
  "i \<in> set is \<Longrightarrow> i mod 3 = 0 \<Longrightarrow> model_f m i = None \<Longrightarrow> obj_cra_loop m is s0 = Inl KeyError"
proof (induction "is" arbitrary: s0)
  case Nil
  then show ?case by simp
next
  case (Cons j "is")
  show ?case
  proof (cases "j mod 3 = 0")
    case True
    show ?thesis
    proof (cases "model_f m j")
      case None
      with True show ?thesis by (simp add: bind_result_simps component_get_def)
    next
      case (Some v)
      with Cons.prems True have "i \<in> set is" by auto
      from Cons.IH [OF this Cons.prems(2,3)] True Some show ?thesis
        by (simp add: bind_result_simps component_get_def)
    qed
  next
    case False
    with Cons.prems have "i \<in> set is" by auto
    from Cons.IH [OF this Cons.prems(2,3)] False show ?thesis by simp
  qed
qed

lemma rbe_uses_weights: "obj_rbe [1, 1, 1] weights_model \<noteq> obj_rbe [1, 2, 1] weights_model"
  by (simp add: obj_rbe_def obj_weights_def weights_model_def bind_result_simps
      component_get_def tuple_get_def)

lemma cra_penalty_uses_weights:
  "obj_cra_penalty [1, 1, 1] weights_model \<noteq> obj_cra_penalty [2, 1, 1] weights_model"
  by (simp add: obj_cra_penalty_def obj_weights_def weights_model_def bind_result_simps
      component_get_def tuple_get_def dot_product_def)

lemma obj_weights_loop_ok:
  assumes "3 \<le> length weights"
    and "\<forall>i\<in>set is. i mod 4 = 0 \<or> i mod 4 = 1 \<longrightarrow> i \<in> dom (model_f m)"
  shows "obj_weights_loop weights m is s0
         = Inr (s0
                + (\<Sum>i\<leftarrow>filter (\<lambda>i. i mod 4 = 0) is.
                     the (model_f m i) * the (model_f m i) * weights ! 1)
                + (\<Sum>i\<leftarrow>filter (\<lambda>i. i mod 4 = 1) is.
                     the (model_f m i) * the (model_f m i) * weights ! 2))"
  using assms(2)
proof (induction "is" arbitrary: s0)
  case Nil
  then show ?case by simp
next
  case (Cons i "is")
  from Cons.prems have rest: "\<forall>i\<in>set is. i mod 4 = 0 \<or> i mod 4 = 1 \<longrightarrow> i \<in> dom (model_f m)"
    by simp
  from assms(1) have w: "tuple_get weights 1 = Inr (weights ! 1)"
    "tuple_get weights 2 = Inr (weights ! 2)"
    by (simp_all add: tuple_get_def)
  show ?case
  proof (cases "i mod 4 = 1")
    case True
    with Cons.prems obtain v where v: "model_f m i = Some v" by auto
    from True have n0: "i mod 4 \<noteq> 0" by simp
    from Cons.IH [OF rest, of "s0 + v * v * weights ! 2"] True n0 v w show ?thesis
      by (simp add: bind_result_simps component_get_def)
  next
    case False
    show ?thesis
    proof (cases "i mod 4 = 0")
      case True
      with Cons.prems obtain v where v: "model_f m i = Some v" by auto
      from Cons.IH [OF rest, of "s0 + v * v * weights ! 1"] True False v w show ?thesis
        by (simp add: bind_result_simps component_get_def)
    next
      case False0: False
      from Cons.IH [OF rest, of s0] False False0 show ?thesis by simp
    qed
  qed
qed

lemma obj_weights_ok:
  assumes "3 \<le> length weights"
    and "\<forall>i\<in>set (model_f_id m). i mod 4 = 0 \<or> i mod 4 = 1 \<longrightarrow> i \<in> dom (model_f m)"
  shows "obj_weights weights m = Inr (spec_weighted_sum weights m)"
  unfolding obj_weights_def spec_weighted_sum_def
  using obj_weights_loop_ok [OF assms, of 0] by simp

text \<open>
  C9. The \<open>cra\<close> objective does not depend on the weights: for any two weight tuples the
  selector returns the same function, whose value on a model is the unweighted sum of
  \<open>f[i] * f[i]\<close> over the indices \<open>i\<close> of \<open>f_id\<close> divisible by 3, plus the dot product
  of \<open>alpha\<close> with itself (and it raises \<open>KeyError\<close> exactly when one of these \<open>f[i]\<close>
  is missing). The \<open>cra_penalty\<close> and \<open>rbe\<close> objectives do apply the weights: for three
  weights and a model that holds the forces they read, \<open>rbe\<close> is the sum of the squared
  forces of residue 0 modulo 4 times the second weight and of those of residue 1 times
  the third, and \<open>cra_penalty\<close> adds the dot product of \<open>alpha\<close> with itself times the
  first weight; so they differ on weights on which \<open>cra\<close> does not.
\<close>

theorem obj_cra_ignores_weights:
  "objectives ''cra'' w1 = objectives ''cra'' w2
   \<and> objectives ''cra'' w1 = Some obj_cra
   \<and> obj_cra m =
       (if \<forall>i\<in>set (model_f_id m). i mod 3 = 0 \<longrightarrow> i \<in> dom (model_f m)
        then Inr ((\<Sum>i\<leftarrow>filter (\<lambda>i. i mod 3 = 0) (model_f_id m). the (model_f m i) * the (model_f m i))
                  + (\<Sum>i\<leftarrow>map fst (model_alpha m).
                       the (map_of (model_alpha m) i) * the (map_of (model_alpha m) i)))
        else Inl KeyError)
   \<and> objectives ''cra_penalty'' [1, 1, 1] \<noteq> objectives ''cra_penalty'' [2, 1, 1]
   \<and> objectives ''rbe'' [1, 1, 1] \<noteq> objectives ''rbe'' [1, 2, 1]
   \<and> objectives ''rbe'' w = Some (obj_rbe w)
   \<and> objectives ''cra_penalty'' w = Some (obj_cra_penalty w)
   \<and> (3 \<le> length w
       \<and> (\<forall>i\<in>set (model_f_id m). i mod 4 = 0 \<or> i mod 4 = 1 \<longrightarrow> i \<in> dom (model_f m))
      \<longrightarrow> obj_rbe w m = Inr (spec_weighted_sum w m)
          \<and> obj_cra_penalty w m = Inr (spec_alpha_dot m * w ! 0 + spec_weighted_sum w m))"
proof -
  have a: "objectives ''cra'' w1 = objectives ''cra'' w2" "objectives ''cra'' w1 = Some obj_cra"
    by (simp_all add: objectives_def)
  have b: "obj_cra m =
       (if \<forall>i\<in>set (model_f_id m). i mod 3 = 0 \<longrightarrow> i \<in> dom (model_f m)
        then Inr ((\<Sum>i\<leftarrow>filter (\<lambda>i. i mod 3 = 0) (model_f_id m). the (model_f m i) * the (model_f m i))
                  + (\<Sum>i\<leftarrow>map fst (model_alpha m).
                       the (map_of (model_alpha m) i) * the (map_of (model_alpha m) i)))
        else Inl KeyError)"
  proof (cases "\<forall>i\<in>set (model_f_id m). i mod 3 = 0 \<longrightarrow> i \<in> dom (model_f m)")
    case True
    show ?thesis
      using True obj_cra_loop_ok [OF True, of 0]
      by (simp add: obj_cra_def dot_product_self bind_result_simps)
  next
    case False
    then obtain i where "i \<in> set (model_f_id m)" "i mod 3 = 0" "model_f m i = None"
      by (auto simp: dom_def)
    from obj_cra_loop_fail [OF this, of 0] False show ?thesis
      by (simp add: obj_cra_def dot_product_self bind_result_simps)
  qed
  have c: "objectives ''cra_penalty'' [1, 1, 1] \<noteq> objectives ''cra_penalty'' [2, 1, 1]"
    using cra_penalty_uses_weights by (auto simp: objectives_def)
  have d: "objectives ''rbe'' [1, 1, 1] \<noteq> objectives ''rbe'' [1, 2, 1]"
    using rbe_uses_weights by (auto simp: objectives_def)
  have e: "objectives ''rbe'' w = Some (obj_rbe w)"
    "objectives ''cra_penalty'' w = Some (obj_cra_penalty w)"
    by (simp_all add: objectives_def)
  have f: "obj_rbe w m = Inr (spec_weighted_sum w m)
          \<and> obj_cra_penalty w m = Inr (spec_alpha_dot m * w ! 0 + spec_weighted_sum w m)"
    if h: "3 \<le> length w
       \<and> (\<forall>i\<in>set (model_f_id m). i mod 4 = 0 \<or> i mod 4 = 1 \<longrightarrow> i \<in> dom (model_f m))"
  proof -
    from h have h1: "3 \<le> length w"
      and h2: "\<forall>i\<in>set (model_f_id m). i mod 4 = 0 \<or> i mod 4 = 1 \<longrightarrow> i \<in> dom (model_f m)"
      by simp_all
    have s: "obj_weights w m = Inr (spec_weighted_sum w m)"
      by (rule obj_weights_ok [OF h1 h2])
    from h1 have "w \<noteq> []" by (cases w) simp_all
    then have w0: "tuple_get w 0 = Inr (w ! 0)" by (simp add: tuple_get_def)
    from s w0 show ?thesis
      by (simp add: obj_rbe_def obj_cra_penalty_def dot_product_self spec_alpha_dot_def
          bind_result_simps)
  qed
  from a b c d e f show ?thesis by blast
qed

theorem obj_cra_ignores_weights_witness:
  "objectives ''cra'' [1, 1, 1000000] = objectives ''cra'' [5, 7, 9]
   \<and> obj_cra weights_model = Inr 5
   \<and> 3 \<le> length [2, 3, 5 :: real]
   \<and> obj_rbe [2, 3, 5] weights_model = Inr 57
   \<and> obj_cra_penalty [2, 3, 5] weights_model = Inr 59"
proof -
  note t = obj_cra_ignores_weights [of "[1, 1, 1000000]" "[5, 7, 9]" weights_model "[2, 3, 5]"]
  have h: "3 \<le> length [2, 3, 5 :: real]
       \<and> (\<forall>i\<in>set (model_f_id weights_model). i mod 4 = 0 \<or> i mod 4 = 1
             \<longrightarrow> i \<in> dom (model_f weights_model))"
    by (simp add: weights_model_def)
  from t h have r: "obj_rbe [2, 3, 5] weights_model = Inr (spec_weighted_sum [2, 3, 5] weights_model)"
    and p: "obj_cra_penalty [2, 3, 5] weights_model
            = Inr (spec_alpha_dot weights_model * [2, 3, 5] ! 0
                   + spec_weighted_sum [2, 3, 5] weights_model)"
    by blast+
  have v: "spec_weighted_sum [2, 3, 5] weights_model = 57" "spec_alpha_dot weights_model = 1"
    by (simp_all add: spec_weighted_sum_def spec_alpha_dot_def weights_model_def)
  from t have c: "objectives ''cra'' [1, 1, 1000000] = objectives ''cra'' [5, 7, 9]"
    and o: "obj_cra weights_model =
       (if \<forall>i\<in>set (model_f_id weights_model). i mod 3 = 0 \<longrightarrow> i \<in> dom (model_f weights_model)
        then Inr ((\<Sum>i\<leftarrow>filter (\<lambda>i. i mod 3 = 0) (model_f_id weights_model).
                     the (model_f weights_model i) * the (model_f weights_model i))
                  + (\<Sum>i\<leftarrow>map fst (model_alpha weights_model).
                       the (map_of (model_alpha weights_model) i)
                       * the (map_of (model_alpha weights_model) i)))
        else Inl KeyError)"
    by blast+
  from o have o': "obj_cra weights_model = Inr 5" by (simp add: weights_model_def)
  from c o' r p v show ?thesis by simp
qed

subsection \<open>The equilibrium matrix of the free nodes\<close>

lemma map_result_ok:
  "(\<And>x. x \<in> set xs \<Longrightarrow> g x = Inr (h x)) \<Longrightarrow> map_result g xs = Inr (map h xs)"
  by (induction xs) (simp_all add: bind_result_simps)

lemma key_index_fold_other:
  "key \<notin> set keys \<Longrightarrow>
   fold (\<lambda>(index, key) m. m(key \<mapsto> index)) (enumerate n keys) m0 key = m0 key"
  by (induction keys arbitrary: n m0) auto

lemma key_index_fold_nth:
  "distinct keys \<Longrightarrow> i < length keys \<Longrightarrow>
   fold (\<lambda>(index, key) m. m(key \<mapsto> index)) (enumerate n keys) m0 (keys ! i) = Some (n + i)"
proof (induction keys arbitrary: n m0 i)
  case Nil
  then show ?case by simp
next
  case (Cons k keys)
  show ?case
  proof (cases i)
    case 0
    from Cons.prems have "k \<notin> set keys" by simp
    from key_index_fold_other [OF this, of "Suc n" "m0(k \<mapsto> n)"]
    have "fold (\<lambda>(index, key) m. m(key \<mapsto> index)) (enumerate (Suc n) keys) (m0(k \<mapsto> n)) k
          = Some n" by simp
    with 0 show ?thesis
      by (simp only: enumerate_simps fold_simps comp_apply prod.case nth_Cons_0 add_0_right)
  next
    case (Suc j)
    with Cons.prems have "distinct keys" "j < length keys" by simp_all
    from Cons.IH [OF this, of "Suc n" "m0(k \<mapsto> n)"] Suc show ?thesis by simp
  qed
qed

lemma key_index_nth:
  "distinct keys \<Longrightarrow> i < length keys \<Longrightarrow> key_index keys (keys ! i) = Some i"
  unfolding key_index_def using key_index_fold_nth [of keys i 0 Map.empty] by simp

lemma key_index_node:
  assumes "distinct (map fst ns)" and "i < length ns"
  shows "key_index (map fst ns) (fst (ns ! i)) = Some i"
  using key_index_nth [of "map fst ns" i] assms by simp

lemma fixed_indices:
  assumes keys: "distinct (map fst ns)"
  shows "\<exists>fixed. map_result (component_get (key_index (map fst ns))) (nodes_where_is_support ns)
            = Inr fixed
          \<and> set fixed = {i. i < length ns \<and> is_support (snd (ns ! i))}"
proof -
  let ?ki = "key_index (map fst ns)"
  let ?h = "\<lambda>key. the (?ki key)"
  have ok: "component_get ?ki key = Inr (?h key)" if "key \<in> set (nodes_where_is_support ns)" for key
  proof -
    from that obtain i where "i < length ns" "key = fst (ns ! i)"
      by (auto simp: nodes_where_is_support_def in_set_conv_nth)
    with key_index_node [OF keys] show ?thesis by (simp add: component_get_def)
  qed
  have eq: "map_result (component_get ?ki) (nodes_where_is_support ns)
            = Inr (map ?h (nodes_where_is_support ns))"
    by (rule map_result_ok) (rule ok)
  have "set (map ?h (nodes_where_is_support ns)) = {i. i < length ns \<and> is_support (snd (ns ! i))}"
  proof (intro equalityI subsetI)
    fix j assume "j \<in> set (map ?h (nodes_where_is_support ns))"
    then obtain x where x: "x \<in> set ns" "is_support (snd x)" "j = ?h (fst x)"
      by (auto simp: nodes_where_is_support_def)
    then obtain i where i: "i < length ns" "x = ns ! i" by (auto simp: in_set_conv_nth)
    with key_index_node [OF keys, of i] x have "j = i" by simp
    with i x show "j \<in> {i. i < length ns \<and> is_support (snd (ns ! i))}" by simp
  next
    fix j assume "j \<in> {i. i < length ns \<and> is_support (snd (ns ! i))}"
    then have j: "j < length ns" "is_support (snd (ns ! j))" by simp_all
    then have "ns ! j \<in> set (filter (\<lambda>(key, attr). is_support attr) ns)"
      by (auto simp: case_prod_beta)
    then have "fst (ns ! j) \<in> set (nodes_where_is_support ns)"
      unfolding nodes_where_is_support_def set_map by (rule imageI)
    then have "?h (fst (ns ! j)) \<in> set (map ?h (nodes_where_is_support ns))"
      unfolding set_map by (rule imageI)
    with key_index_node [OF keys j(1)] show "j \<in> set (map ?h (nodes_where_is_support ns))"
      by simp
  qed
  with eq show ?thesis by blast
qed

lemma in_six: "r \<in> set (map (\<lambda>i. a * 6 + i) [0..<6]) \<longleftrightarrow> (\<exists>i<6. r = a * 6 + (i::nat))"
proof -
  have "set (map (\<lambda>i. a * 6 + i) [0..<6]) = (\<lambda>i. a * 6 + i) ` {0..<6}"
    by (simp only: set_map set_upt)
  then show ?thesis by (simp only: image_iff atLeastLessThan_iff Bex_def) auto
qed

lemma row_numbers_Nil: "row_numbers [] = []"
  by (simp only: row_numbers_def list.map concat.simps)

lemma row_numbers_Cons:
  "row_numbers (a # free) = map (\<lambda>i. a * 6 + i) [0..<6] @ row_numbers free"
  by (simp only: row_numbers_def list.map concat.simps)

lemma in_row_numbers:
  "r \<in> set (row_numbers free) \<longleftrightarrow> (\<exists>index\<in>set free. \<exists>i<6. r = index * 6 + i)"
proof (induction free)
  case Nil
  show ?case by (simp add: row_numbers_Nil)
next
  case (Cons a free)
  show ?case
    by (simp only: row_numbers_Cons set_append Un_iff in_six Cons.IH list.set(2) bex_simps)
qed

lemma set_row_numbers:
  "set (row_numbers free) = {6 * index + i | index i. index \<in> set free \<and> i < 6}"
proof (intro equalityI subsetI)
  fix r assume "r \<in> set (row_numbers free)"
  then obtain index i where "index \<in> set free" "i < 6" "r = index * 6 + i"
    unfolding in_row_numbers by blast
  then have "r = 6 * index + i \<and> index \<in> set free \<and> i < 6" by simp
  then show "r \<in> {6 * index + i | index i. index \<in> set free \<and> i < 6}" by blast
next
  fix r assume "r \<in> {6 * index + i | index i. index \<in> set free \<and> i < 6}"
  then obtain index i where a: "index \<in> set free" "i < 6" and r: "r = 6 * index + i" by blast
  from r have "r = index * 6 + i" by simp
  with a show "r \<in> set (row_numbers free)" unfolding in_row_numbers by blast
qed

lemma length_row_numbers: "length (row_numbers free) = 6 * length free"
  by (induction free) (simp_all add: row_numbers_Nil row_numbers_Cons del: upt_Suc)

lemma distinct_six: "distinct (map (\<lambda>i. a * 6 + i) [0..<6])"
  by (simp only: distinct_map distinct_upt inj_on_def) simp

lemma distinct_row_numbers: "distinct free \<Longrightarrow> distinct (row_numbers free)"
proof (induction free)
  case Nil
  then show ?case by (simp add: row_numbers_Nil)
next
  case (Cons a free)
  have d2: "distinct (row_numbers free)" using Cons by simp
  have d3: "set (map (\<lambda>i. a * 6 + i) [0..<6]) \<inter> set (row_numbers free) = {}"
  proof (rule ccontr)
    assume "set (map (\<lambda>i. a * 6 + i) [0..<6]) \<inter> set (row_numbers free) \<noteq> {}"
    then obtain r where r1: "r \<in> set (map (\<lambda>i. a * 6 + i) [0..<6])"
      and r2: "r \<in> set (row_numbers free)" by blast
    from r1 obtain i where i: "i < 6" "r = a * 6 + i" unfolding in_six by blast
    from r2 obtain index j where j: "index \<in> set free" "j < 6" "r = index * 6 + j"
      unfolding in_row_numbers by blast
    from i j have "a * 6 + i = index * 6 + j" by simp
    with i(1) j(2) have "a = index" by linarith
    with j(1) Cons.prems show False by simp
  qed
  show ?case unfolding row_numbers_Cons distinct_append using distinct_six d2 d3 by (intro conjI)
qed

lemma select_rows_ok:
  "(\<And>r. r \<in> set rs \<Longrightarrow> r < length a) \<Longrightarrow> select_rows a rs = Inr (map (\<lambda>r. a ! r) rs)"
  unfolding select_rows_def by (rule map_result_ok) simp

lemma range_6: "[0..<6] = [0, 1, 2, 3, 4, 5]"
  by code_simp

lemma range_18: "[0..<18] = [0, 1, 2, 3, 4, 5, 6, 7, 8, 9, 10, 11, 12, 13, 14, 15, 16, 17]"
  by code_simp

lemma example_setup:
  "equilibrium_setup rev example_make_aeq example_assembly
   = Inr ([[12], [13], [14], [15], [16], [17], [0], [1], [2], [3], [4], [5]], 3, [2, 0])"
  by (simp add: equilibrium_setup_def example_make_aeq_def example_assembly_def key_index_def
      nodes_where_is_support_def bind_result_simps component_get_def select_rows_def
      row_numbers_def range_6 range_18)

text \<open>
  C1. \<open>equilibrium_setup\<close> returns the raw matrix of \<open>make_aeq\<close> restricted to the free
  nodes: the free list holds each index of a node that is not a support exactly once, and
  the returned matrix keeps exactly the rows \<open>6 * index + i\<close> for \<open>index\<close> free and
  \<open>i\<close> in \<open>0..5\<close>, six per free node and none for a support. The raw matrix has six rows
  per node, and Python lists every element of a set once.
\<close>

theorem equilibrium_setup_free_rows:
  assumes keys: "distinct (map fst (graph_nodes a))"
    and order: "\<And>xs. distinct xs \<Longrightarrow> distinct (set_order xs) \<and> set (set_order xs) = set xs"
    and raw: "6 * length (graph_nodes a) \<le> length (fst (make_aeq a))"
  shows "\<exists>free.
      equilibrium_setup set_order make_aeq a
        = Inr (map (\<lambda>r. fst (make_aeq a) ! r) (row_numbers free), snd (make_aeq a), free)
      \<and> distinct free
      \<and> set free = {index. index < length (graph_nodes a)
                             \<and> \<not> is_support (snd (graph_nodes a ! index))}
      \<and> set (row_numbers free) = {6 * index + i | index i. index \<in> set free \<and> i < 6}
      \<and> distinct (row_numbers free)
      \<and> length (row_numbers free) = 6 * length free"
proof -
  let ?ns = "graph_nodes a"
  from fixed_indices [OF keys] obtain fixed where
    fixed: "map_result (component_get (key_index (map fst ?ns))) (nodes_where_is_support ?ns)
              = Inr fixed"
    and set_fixed: "set fixed = {i. i < length ?ns \<and> is_support (snd (?ns ! i))}"
    by blast
  let ?cand = "filter (\<lambda>i. i \<notin> set fixed) [0..<length ?ns]"
  let ?free = "set_order ?cand"
  have "distinct ?cand" by simp
  from order [OF this] have dfree: "distinct ?free" and sfree: "set ?free = set ?cand" by simp_all
  have set_free: "set ?free = {index. index < length ?ns \<and> \<not> is_support (snd (?ns ! index))}"
    using sfree set_fixed by auto
  have "r < length (fst (make_aeq a))" if "r \<in> set (row_numbers ?free)" for r
  proof -
    from that obtain index i where "r = 6 * index + i" "index \<in> set ?free" "i < 6"
      by (auto simp: set_row_numbers)
    with set_free have "r < 6 * length ?ns" by auto
    with raw show ?thesis by simp
  qed
  then have rows: "select_rows (fst (make_aeq a)) (row_numbers ?free)
                   = Inr (map (\<lambda>r. fst (make_aeq a) ! r) (row_numbers ?free))"
    by (rule select_rows_ok)
  have "equilibrium_setup set_order make_aeq a
        = Inr (map (\<lambda>r. fst (make_aeq a) ! r) (row_numbers ?free), snd (make_aeq a), ?free)"
    unfolding equilibrium_setup_def Let_def
    by (simp add: fixed rows bind_result_simps case_prod_beta)
  with dfree set_free set_row_numbers [of ?free] distinct_row_numbers [OF dfree]
    length_row_numbers [of ?free]
  show ?thesis by blast
qed

theorem equilibrium_setup_free_rows_witness:
  "distinct (map fst (graph_nodes example_assembly))
   \<and> 6 * length (graph_nodes example_assembly) \<le> length (fst (example_make_aeq example_assembly))
   \<and> equilibrium_setup rev example_make_aeq example_assembly
       = Inr ([[12], [13], [14], [15], [16], [17], [0], [1], [2], [3], [4], [5]], 3, [2, 0])
   \<and> set [2, 0] = {index. index < length (graph_nodes example_assembly)
                        \<and> \<not> is_support (snd (graph_nodes example_assembly ! index))}
   \<and> set (row_numbers [2, 0]) = {6 * index + i | index i. index \<in> set [2, 0] \<and> i < 6}"
proof -
  have h1: "distinct (map fst (graph_nodes example_assembly))"
    by (simp add: example_assembly_def)
  have h2: "\<And>xs :: nat list. distinct xs \<Longrightarrow> distinct (rev xs) \<and> set (rev xs) = set xs"
    by simp
  have h3: "6 * length (graph_nodes example_assembly)
            \<le> length (fst (example_make_aeq example_assembly))"
    by (simp add: example_make_aeq_def)
  from equilibrium_setup_free_rows [of example_assembly rev example_make_aeq, OF h1 h2 h3]
  obtain free where
    r: "equilibrium_setup rev example_make_aeq example_assembly
        = Inr (map (\<lambda>r. fst (example_make_aeq example_assembly) ! r) (row_numbers free),
               snd (example_make_aeq example_assembly), free)"
    and s: "set free = {index. index < length (graph_nodes example_assembly)
                        \<and> \<not> is_support (snd (graph_nodes example_assembly ! index))}"
    and t: "set (row_numbers free) = {6 * index + i | index i. index \<in> set free \<and> i < 6}"
    by blast
  from r have "free = [2, 0]" unfolding example_setup by simp
  with s t h1 h3 example_setup show ?thesis by simp
qed

subsection \<open>The equilibrium and friction blocks\<close>

lemma p_loop_general:
  assumes "\<And>j. j < length ms \<Longrightarrow> ki (fst (ms ! j)) = Some (k + j)"
    and "k + length ms \<le> length p"
  shows "\<exists>p'. p_loop ki density ms p = Inr p' \<and> length p' = length p \<and>
          (\<forall>i<length p. p' ! i =
             (if k \<le> i \<and> i < k + length ms
              then (p ! i)[2 := - block_volume (snd (ms ! (i - k))) * density]
              else p ! i))"
  using assms
proof (induction ms arbitrary: k p)
  case Nil
  then show ?case by auto
next
  case (Cons x ms)
  obtain node attr where x: "x = (node, attr)" by (cases x)
  from Cons.prems(1) [of 0] x have ki: "ki node = Some k" by simp
  from Cons.prems(2) have k: "k < length p" by simp
  let ?p1 = "p[k := (p ! k)[2 := - block_volume attr * density]]"
  have a1: "\<And>j. j < length ms \<Longrightarrow> ki (fst (ms ! j)) = Some (Suc k + j)"
    using Cons.prems(1) [of "Suc j" for j] by simp
  have a2: "Suc k + length ms \<le> length ?p1" using Cons.prems(2) by simp
  from Cons.IH [OF a1 a2] obtain p' where
    r: "p_loop ki density ms ?p1 = Inr p'" and l: "length p' = length ?p1"
    and n: "\<forall>i<length ?p1. p' ! i =
             (if Suc k \<le> i \<and> i < Suc k + length ms
              then (?p1 ! i)[2 := - block_volume (snd (ms ! (i - Suc k))) * density]
              else ?p1 ! i)"
    by blast
  have step: "p_loop ki density (x # ms) p = Inr p'"
    using r ki k x by (simp add: bind_result_simps component_get_def)
  have "p' ! i =
          (if k \<le> i \<and> i < k + length (x # ms)
           then (p ! i)[2 := - block_volume (snd ((x # ms) ! (i - k))) * density]
           else p ! i)" if i: "i < length p" for i
  proof (cases "i = k")
    case True
    with n i x show ?thesis by simp
  next
    case False
    show ?thesis
    proof (cases "Suc k \<le> i \<and> i < Suc k + length ms")
      case True
      then have "i - k = Suc (i - Suc k)" by arith
      with n i True False show ?thesis by simp
    next
      case False2: False
      with n i False show ?thesis by auto
    qed
  qed
  with step l show ?case by simp
qed

lemma p_loop_nodes:
  assumes keys: "distinct (map fst ns)"
  shows "p_loop (key_index (map fst ns)) density ns (map (\<lambda>i. [0, 0, 0, 0, 0, 0]) [0..<length ns])
         = Inr (map (\<lambda>i. [0, 0, - block_volume (snd (ns ! i)) * density, 0, 0, 0])
                  [0..<length ns])"
proof -
  let ?p0 = "map (\<lambda>i. [0, 0, 0, 0, 0, 0 :: real]) [0..<length ns]"
  have a1: "\<And>j. j < length ns \<Longrightarrow> key_index (map fst ns) (fst (ns ! j)) = Some (0 + j)"
    using key_index_node [OF keys] by simp
  have a2: "0 + length ns \<le> length ?p0" by simp
  from p_loop_general [OF a1 a2, of density] obtain p' where
    r: "p_loop (key_index (map fst ns)) density ns ?p0 = Inr p'" and l: "length p' = length ?p0"
    and n: "\<forall>i<length ?p0. p' ! i =
             (if 0 \<le> i \<and> i < 0 + length ns
              then (?p0 ! i)[2 := - block_volume (snd (ns ! (i - 0))) * density]
              else ?p0 ! i)"
    by blast
  have "p' = map (\<lambda>i. [0, 0, - block_volume (snd (ns ! i)) * density, 0, 0, 0]) [0..<length ns]"
  proof (rule nth_equalityI)
    show "length p' = length (map (\<lambda>i. [0, 0, - block_volume (snd (ns ! i)) * density, 0, 0, 0])
                                [0..<length ns])"
      using l by simp
  next
    fix i assume "i < length p'"
    with l have i: "i < length ns" by simp
    with n show "p' ! i = map (\<lambda>i. [0, 0, - block_volume (snd (ns ! i)) * density, 0, 0, 0])
                              [0..<length ns] ! i"
      by simp
  qed
  with r show ?thesis by simp
qed

lemma take_rows_ok:
  assumes "p \<noteq> []" and "\<forall>i\<in>set free. 0 \<le> i \<and> i < int (length p)"
  shows "take_rows p free = Inr (map (\<lambda>i. p ! nat i) free)"
proof -
  have "map_result (\<lambda>i. bind_result (np_index (length p) i) (\<lambda>j. Inr (p ! j))) free
        = Inr (map (\<lambda>i. p ! nat i) free)"
  proof (rule map_result_ok)
    fix i assume "i \<in> set free"
    with assms(2) have "0 \<le> i" "i < int (length p)" by simp_all
    then show "bind_result (np_index (length p) i) (\<lambda>j. Inr (p ! j)) = Inr (p ! nat i)"
      by (simp add: np_index_def bind_result_simps)
  qed
  with assms(1) show ?thesis by (simp add: take_rows_def)
qed

lemma static_equilibrium_constraints_eval:
  assumes keys: "distinct (map fst (graph_nodes a))"
    and nonempty: "graph_nodes a \<noteq> []"
    and free: "\<forall>i\<in>set free. 0 \<le> i \<and> i < int (length (graph_nodes a))"
    and rows: "length aeq = 6 * length free"
  shows "static_equilibrium_constraints make_afr m a aeq vcount free density mu
         = Inr (\<lparr>mc_matrix = aeq,
                 mc_lb = map (\<lambda>x. Some (- x)) (self_weight_vector a density free),
                 mc_ub = map (\<lambda>x. Some (- x)) (self_weight_vector a density free),
                 mc_x = model_array_f m\<rparr>,
                \<lparr>mc_matrix = make_afr vcount 8 mu,
                 mc_lb = replicate (length (make_afr vcount 8 mu)) None,
                 mc_ub = replicate (length (make_afr vcount 8 mu)) (Some 0),
                 mc_x = model_array_f m\<rparr>)"
proof -
  let ?ns = "graph_nodes a"
  let ?p = "map (\<lambda>i. [0, 0, - block_volume (snd (?ns ! i)) * density, 0, 0, 0]) [0..<length ?ns]"
  have p: "p_loop (key_index (map fst ?ns)) density ?ns (map (\<lambda>i. [0, 0, 0, 0, 0, 0]) [0..<length ?ns])
           = Inr ?p"
    by (rule p_loop_nodes [OF keys])
  have ne: "?p \<noteq> []" using nonempty by simp
  have fr: "\<forall>i\<in>set free. 0 \<le> i \<and> i < int (length ?p)" using free by simp
  have taken: "take_rows ?p free = Inr (map (\<lambda>i. ?p ! nat i) free)"
    by (rule take_rows_ok [OF ne fr])
  have "map (\<lambda>i. ?p ! nat i) free
        = map (\<lambda>index. [0, 0, - (block_volume (snd (?ns ! nat index)) * density), 0, 0, 0]) free"
  proof (rule map_cong [OF refl])
    fix i assume "i \<in> set free"
    with free have "nat i < length ?ns" by auto
    then show "?p ! nat i = [0, 0, - (block_volume (snd (?ns ! nat i)) * density), 0, 0, 0]"
      by simp
  qed
  then have pf: "concat (map (\<lambda>i. ?p ! nat i) free) = self_weight_vector a density free"
    by (simp only: self_weight_vector_def)
  have len: "length (self_weight_vector a density free) = 6 * length free"
    unfolding self_weight_vector_def by (induction free) simp_all
  have rep: "map (\<lambda>i. c) [0..<n] = replicate n c" for c :: "real option" and n
    by (simp add: map_replicate_const)
  have eq: "MatrixConstraint aeq (map (\<lambda>x. Some (- x)) (self_weight_vector a density free))
              (map (\<lambda>x. Some (- x)) (self_weight_vector a density free)) (model_array_f m)
            = Inr \<lparr>mc_matrix = aeq,
                 mc_lb = map (\<lambda>x. Some (- x)) (self_weight_vector a density free),
                 mc_ub = map (\<lambda>x. Some (- x)) (self_weight_vector a density free),
                 mc_x = model_array_f m\<rparr>"
    using rows len by (simp add: MatrixConstraint_def)
  have fri: "MatrixConstraint (make_afr vcount 8 mu)
               (replicate (length (make_afr vcount 8 mu)) None)
               (replicate (length (make_afr vcount 8 mu)) (Some 0)) (model_array_f m)
             = Inr \<lparr>mc_matrix = make_afr vcount 8 mu,
                 mc_lb = replicate (length (make_afr vcount 8 mu)) None,
                 mc_ub = replicate (length (make_afr vcount 8 mu)) (Some 0),
                 mc_x = model_array_f m\<rparr>"
    by (simp add: MatrixConstraint_def)
  show ?thesis
    unfolding static_equilibrium_constraints_def Let_def
    by (simp only: p taken bind_result_simps pf rep eq fri)
qed

lemma static_equilibrium_constraints_empty:
  assumes "graph_nodes a = []"
  shows "static_equilibrium_constraints make_afr m a aeq vcount free density mu = Inl IndexError"
  using assms
  by (simp add: static_equilibrium_constraints_def Let_def take_rows_def bind_result_simps)

lemma static_equilibrium_constraints_returned:
  assumes "static_equilibrium_constraints make_afr m a aeq vcount free density mu = Inr (eq, fr)"
  shows "fr = \<lparr>mc_matrix = make_afr vcount 8 mu,
               mc_lb = map (\<lambda>i. None) [0..<length (make_afr vcount 8 mu)],
               mc_ub = map (\<lambda>i. Some 0) [0..<length (make_afr vcount 8 mu)],
               mc_x = model_array_f m\<rparr>"
  using assms
  unfolding static_equilibrium_constraints_def Let_def bind_result_def MatrixConstraint_def
  by (auto split: sum.splits if_splits)

lemma example_static:
  "static_equilibrium_constraints example_make_afr example_model example_assembly example_aeq 3
     [2, 0] 2 (1 / 2)
   = Inr (example_equilibrium_block, example_friction_block)"
proof -
  have h1: "distinct (map fst (graph_nodes example_assembly))"
    by (simp add: example_assembly_def)
  have h2: "graph_nodes example_assembly \<noteq> []"
    by (simp add: example_assembly_def)
  have h3: "\<forall>i\<in>set [2, 0]. 0 \<le> i \<and> i < int (length (graph_nodes example_assembly))"
    by (simp add: example_assembly_def)
  have h4: "length example_aeq = 6 * length [2, 0 :: int]"
    by (simp add: example_aeq_def)
  show ?thesis
    unfolding static_equilibrium_constraints_eval [OF h1 h2 h3 h4]
    by (simp add: self_weight_vector_def example_assembly_def example_make_afr_def
        example_model_def example_equilibrium_block_def example_friction_block_def)
qed

text \<open>
  C2, as stated, fails on the assembly with no block: the array built from the empty list
  has one axis, \<^verbatim>\<open>p[free, :]\<close> raises, and no block is returned.
\<close>

theorem static_equilibrium_constraints_empty_raises:
  "static_equilibrium_constraints example_make_afr example_model empty_assembly [] 0 [] 2 (1 / 2)
   = Inl IndexError"
  by (rule static_equilibrium_constraints_empty) (simp add: empty_assembly_def)

text \<open>
  C2, amended. For every assembly with at least one node, every density and \<open>mu\<close>, with
  the free list a list of node indices and \<open>aeq\<close> of six rows per free index, as
  \<open>equilibrium_setup\<close> returns them, \<open>static_equilibrium_constraints\<close> returns two blocks
  over the force variables of the model. The equilibrium block is the equality
  \<open>A_eq f = -p\<close>: its matrix is \<open>aeq\<close> and its lower and upper bounds are both \<open>-p\<close>, where
  \<open>p\<close> stacks, for each free node in the order of the free list, the six entries whose
  third is minus the volume of the block times the density and whose others are zero.
  The friction block is one-sided: no lower bound and upper bound zero in every row.
\<close>

theorem static_equilibrium_constraints_blocks:
  assumes keys: "distinct (map fst (graph_nodes a))"
    and nonempty: "graph_nodes a \<noteq> []"
    and free: "\<forall>i\<in>set free. 0 \<le> i \<and> i < int (length (graph_nodes a))"
    and rows: "length aeq = 6 * length free"
  shows "\<exists>eq fr.
      static_equilibrium_constraints make_afr m a aeq vcount free density mu = Inr (eq, fr)
      \<and> mc_matrix eq = aeq
      \<and> mc_lb eq = map (\<lambda>x. Some (- x)) (self_weight_vector a density free)
      \<and> mc_ub eq = map (\<lambda>x. Some (- x)) (self_weight_vector a density free)
      \<and> mc_x eq = model_array_f m
      \<and> mc_matrix fr = make_afr vcount 8 mu
      \<and> mc_lb fr = replicate (length (mc_matrix fr)) None
      \<and> mc_ub fr = replicate (length (mc_matrix fr)) (Some 0)
      \<and> mc_x fr = model_array_f m"
  unfolding static_equilibrium_constraints_eval [OF keys nonempty free rows] by simp

theorem static_equilibrium_constraints_blocks_witness:
  "distinct (map fst (graph_nodes example_assembly))
   \<and> graph_nodes example_assembly \<noteq> []
   \<and> equilibrium_setup rev example_make_aeq example_assembly = Inr (example_aeq, 3, [2, 0])
   \<and> length example_aeq = 6 * length [2, 0 :: int]
   \<and> static_equilibrium_constraints example_make_afr example_model example_assembly example_aeq
         3 [2, 0] 2 (1 / 2)
       = Inr (example_equilibrium_block, example_friction_block)
   \<and> mc_matrix example_equilibrium_block = example_aeq
   \<and> mc_lb example_equilibrium_block
       = map (\<lambda>x. Some (- x)) (self_weight_vector example_assembly 2 [2, 0])
   \<and> mc_ub example_equilibrium_block = mc_lb example_equilibrium_block
   \<and> mc_x example_equilibrium_block = model_array_f example_model
   \<and> mc_lb example_friction_block = replicate 24 None
   \<and> mc_ub example_friction_block = replicate 24 (Some 0)
   \<and> mc_x example_friction_block = model_array_f example_model"
proof -
  have h1: "distinct (map fst (graph_nodes example_assembly))"
    by (simp add: example_assembly_def)
  have h2: "graph_nodes example_assembly \<noteq> []"
    by (simp add: example_assembly_def)
  have h3: "\<forall>i\<in>set [2, 0]. 0 \<le> i \<and> i < int (length (graph_nodes example_assembly))"
    by (simp add: example_assembly_def)
  have h4: "length example_aeq = 6 * length [2, 0 :: int]"
    by (simp add: example_aeq_def)
  have es: "equilibrium_setup rev example_make_aeq example_assembly
               = Inr (example_aeq, 3, [2, 0])"
    unfolding example_setup example_aeq_def by simp
  from static_equilibrium_constraints_blocks
    [OF h1 h2 h3 h4, of example_make_afr example_model 3 2 "1 / 2"]
  obtain eq fr where
    r: "static_equilibrium_constraints example_make_afr example_model example_assembly
          example_aeq 3 [2, 0] 2 (1 / 2) = Inr (eq, fr)"
    and ma: "mc_matrix eq = example_aeq"
    and lb: "mc_lb eq = map (\<lambda>x. Some (- x)) (self_weight_vector example_assembly 2 [2, 0])"
    and ub: "mc_ub eq = map (\<lambda>x. Some (- x)) (self_weight_vector example_assembly 2 [2, 0])"
    and x: "mc_x eq = model_array_f example_model"
    and flb: "mc_lb fr = replicate (length (mc_matrix fr)) None"
    and fub: "mc_ub fr = replicate (length (mc_matrix fr)) (Some 0)"
    and fx: "mc_x fr = model_array_f example_model"
    by blast
  from r have e: "eq = example_equilibrium_block" "fr = example_friction_block"
    unfolding example_static by simp_all
  have len: "length (mc_matrix example_friction_block) = 24"
    by (simp add: example_friction_block_def)
  from h1 h2 h4 es example_static ma lb ub x flb fub fx show ?thesis
    unfolding e len by simp
qed

text \<open>
  C5, as stated, fails on the assembly with no block: the call raises at
  \<^verbatim>\<open>p[free, :]\<close>, before the friction matrix is asked for, whatever \<open>make_afr\<close> is.
\<close>

theorem friction_cone_not_built_for_empty_assembly:
  "static_equilibrium_constraints (\<lambda>vcount fcon_number mu. replicate fcon_number [mu, mu])
     example_model empty_assembly [] 0 [] 1 1
   = Inl IndexError"
  by (rule static_equilibrium_constraints_empty) (simp add: empty_assembly_def)

text \<open>
  C5, amended. On every input on which \<open>static_equilibrium_constraints\<close> gets as far as
  the friction matrix, the friction cone is linearised with exactly 8 facets: for every
  assembly with at least one node, a free list of node indices and \<open>aeq\<close> of six rows per
  free index the call returns, and whenever it returns, the friction block has the
  matrix that \<open>make_afr\<close> gives for the vertex count, 8 facets and the given \<open>mu\<close>, with
  one bound pair for each of its rows; the result depends on \<open>make_afr\<close> only through its
  value at 8 facets, so no argument changes the number of facets.
\<close>

theorem friction_cone_has_eight_facets:
  "(distinct (map fst (graph_nodes a)) \<and> graph_nodes a \<noteq> []
      \<and> (\<forall>i\<in>set free. 0 \<le> i \<and> i < int (length (graph_nodes a)))
      \<and> length aeq = 6 * length free
      \<longrightarrow> (\<exists>eq' fr'.
             static_equilibrium_constraints make_afr m a aeq vcount free density mu
               = Inr (eq', fr')
             \<and> mc_matrix fr' = make_afr vcount 8 mu
             \<and> mc_lb fr' = replicate (length (make_afr vcount 8 mu)) None
             \<and> mc_ub fr' = replicate (length (make_afr vcount 8 mu)) (Some 0)))
   \<and> (static_equilibrium_constraints make_afr m a aeq vcount free density mu = Inr (eq, fr)
      \<longrightarrow> mc_matrix fr = make_afr vcount 8 mu
          \<and> length (mc_lb fr) = length (make_afr vcount 8 mu)
          \<and> length (mc_ub fr) = length (make_afr vcount 8 mu))
   \<and> (make_afr vcount 8 mu = make_afr' vcount 8 mu
      \<longrightarrow> static_equilibrium_constraints make_afr m a aeq vcount free density mu
          = static_equilibrium_constraints make_afr' m a aeq vcount free density mu)"
proof (intro conjI impI)
  assume h: "distinct (map fst (graph_nodes a)) \<and> graph_nodes a \<noteq> []
      \<and> (\<forall>i\<in>set free. 0 \<le> i \<and> i < int (length (graph_nodes a)))
      \<and> length aeq = 6 * length free"
  then have h1: "distinct (map fst (graph_nodes a))" and h2: "graph_nodes a \<noteq> []"
    and h3: "\<forall>i\<in>set free. 0 \<le> i \<and> i < int (length (graph_nodes a))"
    and h4: "length aeq = 6 * length free"
    by simp_all
  show "\<exists>eq' fr'.
             static_equilibrium_constraints make_afr m a aeq vcount free density mu
               = Inr (eq', fr')
             \<and> mc_matrix fr' = make_afr vcount 8 mu
             \<and> mc_lb fr' = replicate (length (make_afr vcount 8 mu)) None
             \<and> mc_ub fr' = replicate (length (make_afr vcount 8 mu)) (Some 0)"
    unfolding static_equilibrium_constraints_eval [OF h1 h2 h3 h4] by simp
next
  assume r: "static_equilibrium_constraints make_afr m a aeq vcount free density mu = Inr (eq, fr)"
  from static_equilibrium_constraints_returned [OF r]
  show "mc_matrix fr = make_afr vcount 8 mu"
    "length (mc_lb fr) = length (make_afr vcount 8 mu)"
    "length (mc_ub fr) = length (make_afr vcount 8 mu)"
    by simp_all
next
  assume "make_afr vcount 8 mu = make_afr' vcount 8 mu"
  then show "static_equilibrium_constraints make_afr m a aeq vcount free density mu
          = static_equilibrium_constraints make_afr' m a aeq vcount free density mu"
    unfolding static_equilibrium_constraints_def Let_def by simp
qed

theorem friction_cone_has_eight_facets_witness:
  "distinct (map fst (graph_nodes example_assembly)) \<and> graph_nodes example_assembly \<noteq> []
   \<and> length example_aeq = 6 * length [2, 0 :: int]
   \<and> static_equilibrium_constraints example_make_afr example_model example_assembly example_aeq
         3 [2, 0] 2 (1 / 2)
       = Inr (example_equilibrium_block, example_friction_block)
   \<and> mc_matrix example_friction_block = example_make_afr 3 8 (1 / 2)
   \<and> length (mc_matrix example_friction_block) = 3 * 8
   \<and> length (mc_lb example_friction_block) = 3 * 8
   \<and> example_make_afr 3 8 (1 / 2)
       = (\<lambda>vcount fcon_number mu. if fcon_number = 8 then replicate 24 [mu] else []) 3 8 (1 / 2)
   \<and> static_equilibrium_constraints example_make_afr example_model example_assembly example_aeq
         3 [2, 0] 2 (1 / 2)
       = static_equilibrium_constraints
           (\<lambda>vcount fcon_number mu. if fcon_number = 8 then replicate 24 [mu] else [])
           example_model example_assembly example_aeq 3 [2, 0] 2 (1 / 2)"
proof -
  have h1: "distinct (map fst (graph_nodes example_assembly))"
    by (simp add: example_assembly_def)
  have h2: "graph_nodes example_assembly \<noteq> []"
    by (simp add: example_assembly_def)
  have h3: "\<forall>i\<in>set [2, 0]. 0 \<le> i \<and> i < int (length (graph_nodes example_assembly))"
    by (simp add: example_assembly_def)
  have h4: "length example_aeq = 6 * length [2, 0 :: int]"
    by (simp add: example_aeq_def)
  have h: "example_make_afr 3 8 (1 / 2)
       = (\<lambda>vcount fcon_number mu. if fcon_number = 8 then replicate 24 [mu] else []) 3 8 (1 / 2)"
    by (simp add: example_make_afr_def)
  note t = friction_cone_has_eight_facets
    [of example_assembly "[2, 0]" example_aeq example_make_afr example_model 3 2 "1 / 2"
        example_equilibrium_block example_friction_block
        "\<lambda>vcount fcon_number mu. if fcon_number = 8 then replicate 24 [mu] else []"]
  from t h1 h2 h3 h4 obtain eq' fr' where
    r: "static_equilibrium_constraints example_make_afr example_model example_assembly
          example_aeq 3 [2, 0] 2 (1 / 2) = Inr (eq', fr')"
    and m8: "mc_matrix fr' = example_make_afr 3 8 (1 / 2)"
    by blast
  from r have e: "fr' = example_friction_block" unfolding example_static by simp
  from t example_static
  have l: "length (mc_lb example_friction_block) = length (example_make_afr 3 8 (1 / 2))"
    by blast
  from t h
  have d: "static_equilibrium_constraints example_make_afr example_model example_assembly
             example_aeq 3 [2, 0] 2 (1 / 2)
       = static_equilibrium_constraints
           (\<lambda>vcount fcon_number mu. if fcon_number = 8 then replicate 24 [mu] else [])
           example_model example_assembly example_aeq 3 [2, 0] 2 (1 / 2)"
    by blast
  have n: "length (example_make_afr 3 8 (1 / 2)) = 3 * 8"
    by (simp add: example_make_afr_def)
  from h1 h2 h4 example_static m8 l d h n show ?thesis unfolding e by simp
qed

subsection \<open>The forces written back\<close>

lemma point_forces_spec:
  assumes "\<forall>k<spec_shift penalty. model_f m (int (offset + spec_shift penalty * i + k)) \<noteq> None"
  shows "point_forces m (spec_shift penalty) offset i = Inr (spec_point_forces m penalty offset i)"
proof (cases penalty)
  case True
  then have sh: "spec_shift penalty = 4" by (simp add: spec_shift_def)
  have rd: "model_f m (int (offset + 4 * i + k)) \<noteq> None" if "k < 4" for k
    using assms that unfolding sh by blast
  from rd [of 0] rd [of 1] rd [of 2] rd [of 3] obtain v0 v1 v2 v3 where
    "model_f m (int (offset + 4 * i + 0)) = Some v0" "model_f m (int (offset + 4 * i + 1)) = Some v1"
    "model_f m (int (offset + 4 * i + 2)) = Some v2" "model_f m (int (offset + 4 * i + 3)) = Some v3"
    by (auto simp del: of_nat_add of_nat_mult)
  with True show ?thesis
    by (simp add: point_forces_def spec_point_forces_def spec_shift_def bind_result_simps
        component_get_def add_ac)
next
  case False
  then have sh: "spec_shift penalty = 3" by (simp add: spec_shift_def)
  have rd: "model_f m (int (offset + 3 * i + k)) \<noteq> None" if "k < 3" for k
    using assms that unfolding sh by blast
  from rd [of 0] rd [of 1] rd [of 2] obtain v0 v1 v2 where
    "model_f m (int (offset + 3 * i + 0)) = Some v0" "model_f m (int (offset + 3 * i + 1)) = Some v1"
    "model_f m (int (offset + 3 * i + 2)) = Some v2"
    by (auto simp del: of_nat_add of_nat_mult)
  with False show ?thesis
    by (simp add: point_forces_def spec_point_forces_def spec_shift_def bind_result_simps
        component_get_def add_ac)
qed

lemma points_loop_ok:
  "(\<And>i. i \<in> set is \<Longrightarrow> point_forces m shift offset i = Inr (g i)) \<Longrightarrow>
   points_loop m shift offset is acc = (acc @ map g is, None)"
  by (induction "is" arbitrary: acc) simp_all

lemma points_before_0: "points_before xs 0 = 0"
  by (simp add: points_before_def)

lemma points_before_Suc:
  "points_before (x # xs) (Suc j) = length (points x) + points_before xs j"
  by (simp add: points_before_def)

lemma spec_interfaces_Nil: "spec_interfaces m penalty offset [] = []"
  by (simp add: spec_interfaces_def)

lemma spec_interfaces_Cons:
  "spec_interfaces m penalty offset (x # xs) =
     x\<lparr>forces := map (spec_point_forces m penalty offset) [0..<length (points x)]\<rparr>
     # spec_interfaces m penalty (offset + spec_shift penalty * length (points x)) xs"
proof -
  have "[0..<length (x # xs)] = 0 # map Suc [0..<length xs]"
    by (simp add: upt_conv_Cons map_Suc_upt del: upt_Suc)
  then show ?thesis
    unfolding spec_interfaces_def
    by (simp add: points_before_0 points_before_Suc comp_def distrib_left add.assoc del: upt_Suc)
qed

lemma spec_interfaces_append:
  "spec_interfaces m penalty offset (xs @ ys) =
     spec_interfaces m penalty offset xs
     @ spec_interfaces m penalty
         (offset + spec_shift penalty * sum_list (map (\<lambda>x. length (points x)) xs)) ys"
  by (induction xs arbitrary: offset)
     (simp_all add: spec_interfaces_Nil spec_interfaces_Cons distrib_left add.assoc)

lemma interfaces_loop_ok:
  assumes "\<forall>k. offset \<le> k \<and> k < offset + spec_shift penalty * sum_list (map (\<lambda>x. length (points x)) xs)
             \<longrightarrow> model_f m (int k) \<noteq> None"
  shows "interfaces_loop m (spec_shift penalty) offset xs =
           (spec_interfaces m penalty offset xs,
            offset + spec_shift penalty * sum_list (map (\<lambda>x. length (points x)) xs), None)"
  using assms
proof (induction xs arbitrary: offset)
  case Nil
  then show ?case by (simp add: spec_interfaces_Nil)
next
  case (Cons x xs)
  let ?sh = "spec_shift penalty"
  let ?n = "length (points x)"
  have pts: "point_forces m ?sh offset i = Inr (spec_point_forces m penalty offset i)"
    if "i \<in> set [0..<?n]" for i
  proof (rule point_forces_spec, intro allI impI)
    fix k assume k: "k < ?sh"
    from that have "i < ?n" by simp
    then have "Suc i \<le> ?n" by simp
    then have "?sh * Suc i \<le> ?sh * ?n" by (rule mult_le_mono2)
    with k have "offset + ?sh * i + k < offset + ?sh * ?n" by simp
    then have "offset + ?sh * i + k < offset + ?sh * sum_list (map (\<lambda>x. length (points x)) (x # xs))"
      by (simp add: distrib_left)
    moreover have "offset \<le> offset + ?sh * i + k" by simp
    ultimately show "model_f m (int (offset + ?sh * i + k)) \<noteq> None"
      using Cons.prems by blast
  qed
  have loop: "points_loop m ?sh offset [0..<?n] []
              = ([] @ map (spec_point_forces m penalty offset) [0..<?n], None)"
    by (rule points_loop_ok) (rule pts)
  have rest: "\<forall>k. offset + ?sh * ?n \<le> k
               \<and> k < offset + ?sh * ?n + ?sh * sum_list (map (\<lambda>x. length (points x)) xs)
             \<longrightarrow> model_f m (int k) \<noteq> None"
    using Cons.prems by (simp add: distrib_left add.assoc)
  from Cons.IH [OF rest] loop show ?case
    by (simp add: spec_interfaces_Cons distrib_left add.assoc Let_def)
qed

lemma edges_loop_ok:
  assumes "\<forall>k. offset \<le> k
             \<and> k < offset + spec_shift penalty
                     * sum_list (map (\<lambda>x. length (points x)) (concat (map snd es)))
             \<longrightarrow> model_f m (int k) \<noteq> None"
  shows "\<exists>es'. edges_loop m (spec_shift penalty) offset es =
           (es', offset + spec_shift penalty
                     * sum_list (map (\<lambda>x. length (points x)) (concat (map snd es))), None)
         \<and> concat (map snd es') = spec_interfaces m penalty offset (concat (map snd es))"
  using assms
proof (induction es arbitrary: offset)
  case Nil
  then show ?case by (simp add: spec_interfaces_Nil)
next
  case (Cons e es)
  obtain edge ifs where e: "e = (edge, ifs)" by (cases e)
  let ?sh = "spec_shift penalty"
  let ?t = "sum_list (map (\<lambda>x. length (points x)) ifs)"
  let ?r = "sum_list (map (\<lambda>x. length (points x)) (concat (map snd es)))"
  have total: "sum_list (map (\<lambda>x. length (points x)) (concat (map snd (e # es)))) = ?t + ?r"
    using e by simp
  have a1: "\<forall>k. offset \<le> k \<and> k < offset + ?sh * ?t \<longrightarrow> model_f m (int k) \<noteq> None"
    using Cons.prems unfolding total by (simp add: distrib_left)
  have a2: "\<forall>k. offset + ?sh * ?t \<le> k \<and> k < offset + ?sh * ?t + ?sh * ?r
              \<longrightarrow> model_f m (int k) \<noteq> None"
    using Cons.prems unfolding total by (simp add: distrib_left add.assoc)
  from Cons.IH [OF a2] obtain es' where
    r: "edges_loop m ?sh (offset + ?sh * ?t) es = (es', offset + ?sh * ?t + ?sh * ?r, None)"
    and c: "concat (map snd es') = spec_interfaces m penalty (offset + ?sh * ?t) (concat (map snd es))"
    by blast
  have "edges_loop m ?sh offset (e # es)
        = ((edge, spec_interfaces m penalty offset ifs) # es', offset + ?sh * (?t + ?r), None)"
    using interfaces_loop_ok [OF a1] r e by (simp add: distrib_left add.assoc)
  moreover have "concat (map snd ((edge, spec_interfaces m penalty offset ifs) # es'))
        = spec_interfaces m penalty offset (concat (map snd (e # es)))"
    using c e by (simp add: spec_interfaces_append)
  ultimately show ?case unfolding total by blast
qed

lemma result_edges:
  "graph_edges (fst (pyomo_result_assembly m a penalty verbose))
   = fst (edges_loop m (spec_shift penalty) 0 (graph_edges a))"
  unfolding pyomo_result_assembly_def Let_def spec_shift_def
  by (cases penalty) (simp_all split: prod.splits option.splits sum.splits)

text \<open>
  C3. For every interface of every edge, in the order of the edges and of their interface
  lists, the forces of contact point \<open>i\<close> are read at the flat indices
  \<open>offset + shift * i + k\<close>, with shift 4 under penalty and 3 otherwise, the offset
  advancing by \<open>shift * n\<close> after an interface of \<open>n\<close> points; without penalty \<open>c_nn\<close>
  is 0 and \<open>c_u\<close>, \<open>c_v\<close> are at \<open>+1\<close>, \<open>+2\<close>, with penalty \<open>c_nn\<close> is at \<open>+1\<close> and
  \<open>c_u\<close>, \<open>c_v\<close> at \<open>+2\<close>, \<open>+3\<close>. The model holds a force variable at every index below
  the shift times the number of contact points.
\<close>

theorem forces_read_at_flat_indices:
  assumes "\<forall>k < spec_shift penalty * sum_list (map (\<lambda>x. length (points x)) (all_interfaces a)).
              model_f m (int k) \<noteq> None"
  shows "all_interfaces (fst (pyomo_result_assembly m a penalty verbose))
         = map (\<lambda>j. (all_interfaces a ! j)\<lparr>forces :=
                      map (spec_point_forces m penalty
                             (spec_shift penalty * points_before (all_interfaces a) j))
                          [0..<length (points (all_interfaces a ! j))]\<rparr>)
               [0..<length (all_interfaces a)]"
proof -
  have "\<forall>k. 0 \<le> k
          \<and> k < 0 + spec_shift penalty
                  * sum_list (map (\<lambda>x. length (points x)) (concat (map snd (graph_edges a))))
          \<longrightarrow> model_f m (int k) \<noteq> None"
    using assms by (simp add: all_interfaces_def)
  from edges_loop_ok [OF this] obtain es' where
    "edges_loop m (spec_shift penalty) 0 (graph_edges a)
     = (es', 0 + spec_shift penalty
               * sum_list (map (\<lambda>x. length (points x)) (concat (map snd (graph_edges a)))), None)"
    and "concat (map snd es') = spec_interfaces m penalty 0 (concat (map snd (graph_edges a)))"
    by blast
  then have "all_interfaces (fst (pyomo_result_assembly m a penalty verbose))
             = spec_interfaces m penalty 0 (all_interfaces a)"
    by (simp add: all_interfaces_def result_edges)
  then show ?thesis by (simp add: spec_interfaces_def)
qed


lemma example_readable:
  "\<forall>k < spec_shift penalty
         * sum_list (map (\<lambda>x. length (points x)) (all_interfaces example_assembly)).
     model_f example_model (int k) \<noteq> None"
  by (cases penalty) (simp_all add: spec_shift_def all_interfaces_def example_assembly_def example_model_def)

lemma example_forces:
  "all_interfaces (fst (pyomo_result_assembly example_model example_assembly False False))
   = [\<lparr>points = [[0, 0, 0], [1, 0, 0]],
       forces = [\<lparr>c_np = 10, c_nn = 0, c_u = 11, c_v = 12\<rparr>,
                 \<lparr>c_np = 13, c_nn = 0, c_u = 14, c_v = 15\<rparr>]\<rparr>,
      \<lparr>points = [[0, 0, 1]], forces = [\<lparr>c_np = 16, c_nn = 0, c_u = 17, c_v = 18\<rparr>]\<rparr>]"
  by (simp add: all_interfaces_def result_edges spec_shift_def example_assembly_def
      example_model_def point_forces_def bind_result_simps component_get_def)

lemma example_forces_penalty:
  "all_interfaces (fst (pyomo_result_assembly example_model example_assembly True False))
   = [\<lparr>points = [[0, 0, 0], [1, 0, 0]],
       forces = [\<lparr>c_np = 10, c_nn = 11, c_u = 12, c_v = 13\<rparr>,
                 \<lparr>c_np = 14, c_nn = 15, c_u = 16, c_v = 17\<rparr>]\<rparr>,
      \<lparr>points = [[0, 0, 1]], forces = [\<lparr>c_np = 18, c_nn = 19, c_u = 20, c_v = 21\<rparr>]\<rparr>]"
  by (simp add: all_interfaces_def result_edges spec_shift_def example_assembly_def
      example_model_def point_forces_def bind_result_simps component_get_def)

theorem forces_read_at_flat_indices_witness:
  "[\<lparr>points = [[0, 0, 0], [1, 0, 0]],
       forces = [\<lparr>c_np = 10, c_nn = 0, c_u = 11, c_v = 12\<rparr>,
                 \<lparr>c_np = 13, c_nn = 0, c_u = 14, c_v = 15\<rparr>]\<rparr>,
      \<lparr>points = [[0, 0, 1]], forces = [\<lparr>c_np = 16, c_nn = 0, c_u = 17, c_v = 18\<rparr>]\<rparr>]
     = map (\<lambda>j. (all_interfaces example_assembly ! j)\<lparr>forces :=
                      map (spec_point_forces example_model False
                             (spec_shift False * points_before (all_interfaces example_assembly) j))
                          [0..<length (points (all_interfaces example_assembly ! j))]\<rparr>)
               [0..<length (all_interfaces example_assembly)]
   \<and> [\<lparr>points = [[0, 0, 0], [1, 0, 0]],
       forces = [\<lparr>c_np = 10, c_nn = 11, c_u = 12, c_v = 13\<rparr>,
                 \<lparr>c_np = 14, c_nn = 15, c_u = 16, c_v = 17\<rparr>]\<rparr>,
      \<lparr>points = [[0, 0, 1]], forces = [\<lparr>c_np = 18, c_nn = 19, c_u = 20, c_v = 21\<rparr>]\<rparr>]
     = map (\<lambda>j. (all_interfaces example_assembly ! j)\<lparr>forces :=
                      map (spec_point_forces example_model True
                             (spec_shift True * points_before (all_interfaces example_assembly) j))
                          [0..<length (points (all_interfaces example_assembly ! j))]\<rparr>)
               [0..<length (all_interfaces example_assembly)]"
  using forces_read_at_flat_indices [OF example_readable, of False False]
    forces_read_at_flat_indices [OF example_readable, of True False]
  unfolding example_forces example_forces_penalty
  by blast

subsection \<open>The displacements written back\<close>

lemma free_before_0: "free_before ns 0 = 0"
  by (simp add: free_before_def)

lemma free_before_Suc:
  "free_before ((key, attr) # ns) (Suc j) = (if is_support attr then 0 else 1) + free_before ns j"
  by (simp add: free_before_def)

lemma displacement_loop_closed:
  "displacement_loop q (6 * c) ns =
     map (\<lambda>j. case ns ! j of (key, attr) \<Rightarrow>
            if is_support attr then (key, attr)
            else (key, attr\<lparr>displacement :=
                    Some (py_slice q (6 * (c + free_before ns j))
                            (6 * (c + free_before ns j) + 6))\<rparr>))
         [0..<length ns]"
proof (induction ns arbitrary: c)
  case Nil
  then show ?case by simp
next
  case (Cons x ns)
  obtain key attr where x: "x = (key, attr)" by (cases x)
  show ?case
  proof (cases "is_support attr")
    case True
    with Cons.IH [of c] show ?thesis
      unfolding x length_Cons map_upt_Suc
      by (simp add: free_before_0 free_before_Suc case_prod_beta del: upt_Suc cong: if_cong)
  next
    case False
    have e: "6 * Suc c = 6 * c + 6" by simp
    have ih: "displacement_loop q (6 * c + 6) ns =
       map (\<lambda>j. case ns ! j of (key, attr) \<Rightarrow>
            if is_support attr then (key, attr)
            else (key, attr\<lparr>displacement :=
                    Some (py_slice q (6 * (Suc c + free_before ns j))
                            (6 * (Suc c + free_before ns j) + 6))\<rparr>))
         [0..<length ns]"
      using Cons.IH [of "Suc c"] unfolding e .
    from False ih show ?thesis
      unfolding x length_Cons map_upt_Suc
      by (simp add: free_before_0 free_before_Suc case_prod_beta del: upt_Suc cong: if_cong)
  qed
qed

lemma displacement_loop_spec: "displacement_loop q 0 ns = spec_displaced_nodes q ns"
proof -
  have "displacement_loop q (6 * 0) ns = spec_displaced_nodes q ns"
    unfolding displacement_loop_closed spec_displaced_nodes_def
    by (simp only: add_0)
  then show ?thesis by simp
qed

lemma map_result_component:
  "map_result (component_get c) xs = Inr ys \<Longrightarrow> ys = map (\<lambda>x. the (c x)) xs"
proof (induction xs arbitrary: ys)
  case Nil
  then show ?case by simp
next
  case (Cons x xs)
  then show ?case
    by (auto simp: bind_result_def component_get_def split: option.splits sum.splits)
qed

lemma q_values_Inr:
  "q_values qc = Inr q \<Longrightarrow> q = map (\<lambda>i. the (map_of qc (int i))) [0..<length qc]"
  unfolding q_values_def by (drule map_result_component) (simp add: comp_def)

lemma q_values_ok:
  assumes "\<forall>i<length qc. map_of qc (int i) \<noteq> None"
  shows "q_values qc = Inr (map (\<lambda>i. the (map_of qc (int i))) [0..<length qc])"
proof -
  have "map_result (component_get (map_of qc)) (map int [0..<length qc])
        = Inr (map (\<lambda>x. the (map_of qc x)) (map int [0..<length qc]))"
  proof (rule map_result_ok)
    fix x assume "x \<in> set (map int [0..<length qc])"
    then obtain i where "i < length qc" "x = int i" by auto
    with assms have "map_of qc x \<noteq> None" by blast
    then show "component_get (map_of qc) x = Inr (the (map_of qc x))"
      by (auto simp: component_get_def)
  qed
  then show ?thesis by (simp add: q_values_def comp_def)
qed

lemma result_nodes:
  "graph_nodes (fst (pyomo_result_assembly m a penalty verbose)) =
     (case (snd (pyomo_result_assembly m a penalty verbose), model_q m) of
        (None, Some qc) \<Rightarrow>
          spec_displaced_nodes (map (\<lambda>i. the (map_of qc (int i))) [0..<length qc]) (graph_nodes a)
      | _ \<Rightarrow> graph_nodes a)"
proof -
  obtain es off err where e: "edges_loop m (if \<not> penalty then 3 else 4) 0 (graph_edges a) = (es, off, err)"
    by (cases "edges_loop m (if \<not> penalty then 3 else 4) 0 (graph_edges a)")
  show ?thesis
  proof (cases err)
    case (Some x)
    with e show ?thesis by (simp add: pyomo_result_assembly_def Let_def)
  next
    case None
    show ?thesis
    proof (cases "model_q m")
      case None2: None
      with None e show ?thesis by (simp add: pyomo_result_assembly_def Let_def)
    next
      case (Some qc)
      show ?thesis
      proof (cases "q_values qc")
        case (Inl x)
        with Some None e show ?thesis by (simp add: pyomo_result_assembly_def Let_def)
      next
        case (Inr q)
        from q_values_Inr [OF Inr] Inr Some None e show ?thesis
          by (simp add: pyomo_result_assembly_def Let_def displacement_loop_spec)
      qed
    qed
  qed
qed

lemma result_no_error:
  assumes f: "\<forall>k < spec_shift penalty * sum_list (map (\<lambda>x. length (points x)) (all_interfaces a)).
              model_f m (int k) \<noteq> None"
    and q: "\<forall>qc. model_q m = Some qc \<longrightarrow> (\<forall>i<length qc. map_of qc (int i) \<noteq> None)"
  shows "snd (pyomo_result_assembly m a penalty verbose) = None"
proof -
  have "\<forall>k. 0 \<le> k
          \<and> k < 0 + spec_shift penalty
                  * sum_list (map (\<lambda>x. length (points x)) (concat (map snd (graph_edges a))))
          \<longrightarrow> model_f m (int k) \<noteq> None"
    using f by (simp add: all_interfaces_def)
  from edges_loop_ok [OF this] obtain es' off where
    "edges_loop m (spec_shift penalty) 0 (graph_edges a) = (es', off, None)"
    by blast
  then have e: "edges_loop m (if \<not> penalty then 3 else 4) 0 (graph_edges a) = (es', off, None)"
    by (cases penalty) (simp_all add: spec_shift_def)
  show ?thesis
  proof (cases "model_q m")
    case None
    with e show ?thesis by (simp add: pyomo_result_assembly_def Let_def)
  next
    case (Some qc)
    with q have "\<forall>i<length qc. map_of qc (int i) \<noteq> None" by blast
    from q_values_ok [OF this] Some e show ?thesis
      by (simp add: pyomo_result_assembly_def Let_def)
  qed
qed

text \<open>
  C4. Displacements are written only when the model has a component \<open>q\<close> (and nothing
  raised before): then the \<open>k\<close>-th node that is not a support, in the order of the nodes,
  receives the slice \<open>q[6k : 6k + 6]\<close> as its displacement and every support keeps its
  attributes; otherwise the nodes are left as they were. Nothing raises when the model
  holds every force variable that is read and \<open>q\<close> is indexed by \<open>0 .. len(q) - 1\<close>.
\<close>

theorem displacements_written_back:
  "graph_nodes (fst (pyomo_result_assembly m a penalty verbose)) =
     (case (snd (pyomo_result_assembly m a penalty verbose), model_q m) of
        (None, Some qc) \<Rightarrow>
          spec_displaced_nodes (map (\<lambda>i. the (map_of qc (int i))) [0..<length qc]) (graph_nodes a)
      | _ \<Rightarrow> graph_nodes a)
   \<and> ((\<forall>k < spec_shift penalty * sum_list (map (\<lambda>x. length (points x)) (all_interfaces a)).
              model_f m (int k) \<noteq> None)
      \<and> (\<forall>qc. model_q m = Some qc \<longrightarrow> (\<forall>i<length qc. map_of qc (int i) \<noteq> None))
      \<longrightarrow> snd (pyomo_result_assembly m a penalty verbose) = None)"
  using result_nodes [of m a penalty verbose] result_no_error [of penalty a m verbose]
  by blast


lemma range_12: "[0..<12] = [0, 1, 2, 3, 4, 5, 6, 7, 8, 9, 10, 11]"
  by code_simp

lemma example_q_values:
  "q_values [(0, 20), (1, 21), (2, 22), (3, 23), (4, 24), (5, 25), (6, 26), (7, 27),
             (8, 28), (9, 29), (10, 30), (11, 31)]
   = Inr [20, 21, 22, 23, 24, 25, 26, 27, 28, 29, 30, 31]"
  by (simp add: q_values_def range_12 bind_result_simps component_get_def)

lemma example_q_readable:
  "\<forall>qc. model_q example_model = Some qc \<longrightarrow> (\<forall>i<length qc. map_of qc (int i) \<noteq> None)"
proof (intro allI impI)
  fix qc i assume "model_q example_model = Some qc" and i: "i < length qc"
  then have qc: "qc = [(0, 20), (1, 21), (2, 22), (3, 23), (4, 24), (5, 25), (6, 26), (7, 27),
             (8, 28), (9, 29), (10, 30), (11, 31)]"
    by (simp add: example_model_def)
  with i have "i \<in> set [0..<12]" by simp
  then have "i \<in> set [0, 1, 2, 3, 4, 5, 6, 7, 8, 9, 10, 11 :: nat]" unfolding range_12 .
  then show "map_of qc (int i) \<noteq> None" unfolding qc by auto
qed

lemma example_nodes:
  "graph_nodes (fst (pyomo_result_assembly example_model example_assembly False False))
   = example_displaced_nodes"
proof -
  have e: "snd (snd (edges_loop example_model 3 0 (graph_edges example_assembly))) = None"
    by (simp add: example_assembly_def example_model_def point_forces_def bind_result_simps
        component_get_def)
  have q: "model_q example_model
           = Some [(0, 20), (1, 21), (2, 22), (3, 23), (4, 24), (5, 25), (6, 26), (7, 27),
                   (8, 28), (9, 29), (10, 30), (11, 31)]"
    by (simp add: example_model_def)
  have d: "displacement_loop [20, 21, 22, 23, 24, 25, 26, 27, 28, 29, 30, 31] 0
             (graph_nodes example_assembly) = example_displaced_nodes"
    by (simp add: example_assembly_def example_displaced_nodes_def py_slice_def)
  from e obtain es off where
    "edges_loop example_model 3 0 (graph_edges example_assembly) = (es, off, None)"
    by (cases "edges_loop example_model 3 0 (graph_edges example_assembly)") auto
  then show ?thesis
    unfolding pyomo_result_assembly_def Let_def q
    by (simp add: example_q_values d)
qed

theorem displacements_written_back_witness:
  "snd (pyomo_result_assembly example_model example_assembly False False) = None
   \<and> example_displaced_nodes
       = spec_displaced_nodes [20, 21, 22, 23, 24, 25, 26, 27, 28, 29, 30, 31]
           (graph_nodes example_assembly)
   \<and> snd (pyomo_result_assembly (example_model\<lparr>model_q := None\<rparr>) example_assembly False False)
       = None
   \<and> graph_nodes (fst (pyomo_result_assembly (example_model\<lparr>model_q := None\<rparr>)
                           example_assembly False False))
       = graph_nodes example_assembly"
proof -
  have f: "\<forall>k < spec_shift False
               * sum_list (map (\<lambda>x. length (points x)) (all_interfaces example_assembly)).
             model_f example_model (int k) \<noteq> None"
    by (rule example_readable)
  have f': "\<forall>k < spec_shift False
               * sum_list (map (\<lambda>x. length (points x)) (all_interfaces example_assembly)).
             model_f (example_model\<lparr>model_q := None\<rparr>) (int k) \<noteq> None"
    using f by simp
  have q': "\<forall>qc. model_q (example_model\<lparr>model_q := None\<rparr>) = Some qc
               \<longrightarrow> (\<forall>i<length qc. map_of qc (int i) \<noteq> None)"
    by simp
  note t = displacements_written_back [of example_model example_assembly False False]
  note t' = displacements_written_back
              [of "example_model\<lparr>model_q := None\<rparr>" example_assembly False False]
  from t f example_q_readable
  have a: "snd (pyomo_result_assembly example_model example_assembly False False) = None"
    by blast
  have q: "model_q example_model
           = Some [(0, 20), (1, 21), (2, 22), (3, 23), (4, 24), (5, 25), (6, 26), (7, 27),
                   (8, 28), (9, 29), (10, 30), (11, 31)]"
    by (simp add: example_model_def)
  from t have b: "example_displaced_nodes
       = spec_displaced_nodes [20, 21, 22, 23, 24, 25, 26, 27, 28, 29, 30, 31]
           (graph_nodes example_assembly)"
    unfolding a q example_nodes by (simp add: range_12)
  from t' f' q'
  have c: "snd (pyomo_result_assembly (example_model\<lparr>model_q := None\<rparr>) example_assembly
                 False False) = None"
    by blast
  from t' have d: "graph_nodes (fst (pyomo_result_assembly (example_model\<lparr>model_q := None\<rparr>)
                           example_assembly False False))
       = graph_nodes example_assembly"
    unfolding c by simp
  from a b c d show ?thesis by blast
qed

subsection \<open>What the write-back leaves alone\<close>

lemma interfaces_loop_frame:
  assumes "\<And>x fs. F (x\<lparr>forces := fs\<rparr>) = F x"
  shows "map F (fst (interfaces_loop m shift offset xs)) = map F xs"
proof (induction xs arbitrary: offset)
  case Nil
  then show ?case by simp
next
  case (Cons x xs)
  obtain fs err where p: "points_loop m shift offset [0..<length (points x)] [] = (fs, err)"
    by (cases "points_loop m shift offset [0..<length (points x)] []")
  show ?case
  proof (cases err)
    case None
    obtain xs' off' err' where
      r: "interfaces_loop m shift (offset + shift * length (points x)) xs = (xs', off', err')"
      by (cases "interfaces_loop m shift (offset + shift * length (points x)) xs")
    from Cons.IH [of "offset + shift * length (points x)"] r have "map F xs' = map F xs" by simp
    with None p r show ?thesis by (simp add: Let_def assms)
  next
    case (Some e)
    with p show ?thesis by (simp add: Let_def assms)
  qed
qed

lemma edges_loop_frame:
  assumes "\<And>x fs. F (x\<lparr>forces := fs\<rparr>) = F x"
  shows "map (\<lambda>(edge, ifs). (edge, map F ifs)) (fst (edges_loop m shift offset es))
         = map (\<lambda>(edge, ifs). (edge, map F ifs)) es"
proof (induction es arbitrary: offset)
  case Nil
  then show ?case by simp
next
  case (Cons e es)
  obtain edge ifs where e: "e = (edge, ifs)" by (cases e)
  obtain ifs' off err where i: "interfaces_loop m shift offset ifs = (ifs', off, err)"
    by (cases "interfaces_loop m shift offset ifs")
  from interfaces_loop_frame [of F m shift offset ifs] assms i
  have f: "map F ifs' = map F ifs" by simp
  show ?case
  proof (cases err)
    case None
    obtain es' off' err' where r: "edges_loop m shift off es = (es', off', err')"
      by (cases "edges_loop m shift off es")
    from Cons.IH [of off] r
    have "map (\<lambda>(edge, ifs). (edge, map F ifs)) es' = map (\<lambda>(edge, ifs). (edge, map F ifs)) es"
      by simp
    with None e i f r show ?thesis by simp
  next
    case (Some x)
    with e i f show ?thesis by simp
  qed
qed

lemma displacement_loop_frame:
  assumes "\<And>attr d. \<not> is_support attr \<Longrightarrow> G (attr\<lparr>displacement := d\<rparr>) = G attr"
  shows "map (\<lambda>(key, attr). (key, G attr)) (displacement_loop q offset ns)
         = map (\<lambda>(key, attr). (key, G attr)) ns"
  by (induction q offset ns rule: displacement_loop.induct) (simp_all add: assms)

lemma result_cases:
  "\<exists>es. fst (pyomo_result_assembly m a penalty verbose) = a\<lparr>graph_edges := es\<rparr>
          \<and> es = fst (edges_loop m (if \<not> penalty then 3 else 4) 0 (graph_edges a))
    \<or> (\<exists>es q. fst (pyomo_result_assembly m a penalty verbose)
              = a\<lparr>graph_edges := es, graph_nodes := displacement_loop q 0 (graph_nodes a)\<rparr>
          \<and> es = fst (edges_loop m (if \<not> penalty then 3 else 4) 0 (graph_edges a)))"
  unfolding pyomo_result_assembly_def Let_def
  by (auto split: prod.splits option.splits sum.splits)

lemma result_edges_frame:
  assumes F: "\<And>x fs. F (x\<lparr>forces := fs\<rparr>) = F x"
  shows "map (\<lambda>(edge, ifs). (edge, map F ifs))
           (graph_edges (fst (pyomo_result_assembly m a penalty verbose)))
         = map (\<lambda>(edge, ifs). (edge, map F ifs)) (graph_edges a)"
  using result_cases [of m a penalty verbose]
    edges_loop_frame [of F m "if \<not> penalty then 3 else 4" 0 "graph_edges a", OF F]
  by auto

lemma result_nodes_frame:
  assumes G: "\<And>attr d. \<not> is_support attr \<Longrightarrow> G (attr\<lparr>displacement := d\<rparr>) = G attr"
  shows "map (\<lambda>(key, attr). (key, G attr))
           (graph_nodes (fst (pyomo_result_assembly m a penalty verbose)))
         = map (\<lambda>(key, attr). (key, G attr)) (graph_nodes a)"
  using result_cases [of m a penalty verbose]
    displacement_loop_frame [of G _ 0 "graph_nodes a", OF G]
  by auto

lemma result_more_frame:
  "assembly.more (fst (pyomo_result_assembly m a penalty verbose)) = assembly.more a"
  using result_cases [of m a penalty verbose] by auto

text \<open>
  C10. The write-back touches the assembly in two places only, the forces of the
  interfaces and the displacement of the nodes that are not supports: with these two
  blanked the assembly after the call equals the assembly before it, whether or not the
  call raised. In particular the node keys, support flags, volumes and other node
  attributes, the edges, the points and other attributes of their interfaces, and the
  other attributes of the assembly are unchanged. The model is only read.
\<close>

theorem result_frame:
  "erase_results (fst (pyomo_result_assembly m a penalty verbose)) = erase_results a
   \<and> map (\<lambda>(key, attr). (key, is_support attr, block_volume attr, node_attr.more attr))
         (graph_nodes (fst (pyomo_result_assembly m a penalty verbose)))
       = map (\<lambda>(key, attr). (key, is_support attr, block_volume attr, node_attr.more attr))
           (graph_nodes a)
   \<and> map (\<lambda>(edge, ifs). (edge, map (\<lambda>x. (points x, interface.more x)) ifs))
         (graph_edges (fst (pyomo_result_assembly m a penalty verbose)))
       = map (\<lambda>(edge, ifs). (edge, map (\<lambda>x. (points x, interface.more x)) ifs)) (graph_edges a)
   \<and> assembly.more (fst (pyomo_result_assembly m a penalty verbose)) = assembly.more a"
proof -
  let ?r = "fst (pyomo_result_assembly m a penalty verbose)"
  have e: "map (\<lambda>(edge, ifs). (edge, map (\<lambda>x. x\<lparr>forces := []\<rparr>) ifs)) (graph_edges ?r)
           = map (\<lambda>(edge, ifs). (edge, map (\<lambda>x. x\<lparr>forces := []\<rparr>) ifs)) (graph_edges a)"
    by (rule result_edges_frame) simp
  have n: "map (\<lambda>(key, attr). (key, if is_support attr then attr else attr\<lparr>displacement := None\<rparr>))
             (graph_nodes ?r)
           = map (\<lambda>(key, attr). (key, if is_support attr then attr else attr\<lparr>displacement := None\<rparr>))
               (graph_nodes a)"
    by (rule result_nodes_frame) simp
  have mo: "assembly.more ?r = assembly.more a"
    by (rule result_more_frame)
  have "erase_results ?r = erase_results a"
    unfolding erase_results_def using e n mo by (simp add: assembly.equality)
  moreover have "map (\<lambda>(key, attr). (key, is_support attr, block_volume attr, node_attr.more attr))
         (graph_nodes ?r)
       = map (\<lambda>(key, attr). (key, is_support attr, block_volume attr, node_attr.more attr))
           (graph_nodes a)"
    by (rule result_nodes_frame
          [where G = "\<lambda>attr. (is_support attr, block_volume attr, node_attr.more attr)"]) simp
  moreover have "map (\<lambda>(edge, ifs). (edge, map (\<lambda>x. (points x, interface.more x)) ifs))
         (graph_edges ?r)
       = map (\<lambda>(edge, ifs). (edge, map (\<lambda>x. (points x, interface.more x)) ifs)) (graph_edges a)"
    by (rule result_edges_frame) simp
  ultimately show ?thesis using mo by blast
qed

end
